theory Spec2Isabelle
  imports Main "HOL-Library.Word"
begin

unbundle bit_operations_syntax

section \<open>The store of the commit log\<close>

text \<open>
  The package \<open>log\<close> keeps records in a file, each record preceded by its length in eight
  big-endian bytes. The type \<open>store\<close> wraps an \<open>os.File\<close>, a \<open>bufio.Writer\<close> on that same
  file and a counter \<open>size\<close>. This theory embeds \<open>newStore\<close>, \<open>Append\<close>, \<open>Read\<close>,
  \<open>ReadAt\<close> and \<open>Close\<close> together with the parts of Go's standard library they call.
  The mutex of the store serialises the methods; each method is therefore a function from
  the state before the call to a result and the state after it.
\<close>

type_synonym byte = "8 word"
type_synonym uint64 = "64 word"

subsection \<open>Errors and outcomes\<close>

datatype error =
    EOF
  | ErrClosed
  | ErrNoSpace
  | ErrNegativeOffset
  | ErrNotExist
  | ErrShortWrite

text \<open>
  A method that allocates with \<open>make\<close> can fail to return in two ways: \<open>Panic\<close> is a
  run-time panic, which unwinds the call; \<open>Fatal\<close> is the runtime's \<open>fatal error: out of
  memory\<close>, which ends the process and cannot be recovered. Both are distinct from every
  returned error.
\<close>

datatype 'a outcome = Ok 'a | Err error | Panic | Fatal

subsection \<open>The file: \<open>os.File\<close> and \<open>os.Stat\<close>\<close>

text \<open>
  The file is its bytes on disk, whether the handle has been closed, the size the disk
  lets it grow to, and whether its name still resolves to it; with it goes the machine it
  is on, as the number of bytes the Go runtime there can still allocate. The handle is one opened for
  appending, as a store's file is: \<open>File.Write\<close> adds at the end. A write that does not
  fit writes the bytes that do and fails, as a write on a full disk does; a write, a
  non-empty read or a second close on a closed handle fails. \<open>os.Stat(f.Name())\<close> looks
  the file up by name and gives its length on disk.
\<close>

record os_File =
  data :: "byte list"
  closed :: bool
  quota :: nat
  linked :: bool
  memory :: nat

definition os_Stat :: "os_File \<Rightarrow> error + nat" where
  "os_Stat f = (if linked f then Inr (length (data f)) else Inl ErrNotExist)"

definition file_Write :: "os_File \<Rightarrow> byte list \<Rightarrow> nat \<times> error option \<times> os_File" where
  "file_Write f bs =
     (if closed f then (0, Some ErrClosed, f)
      else
        let n = min (quota f - length (data f)) (length bs) in
        if n < length bs then (n, Some ErrNoSpace, f\<lparr>data := data f @ take n bs\<rparr>)
        else (length bs, None, f\<lparr>data := data f @ bs\<rparr>))"

text \<open>
  \<open>File.ReadAt(b, off)\<close> fills \<open>b\<close> from offset \<open>off\<close>: a negative offset is refused
  first; then the loop \<open>for len(b) > 0\<close> reads, so an empty \<open>b\<close> reads nothing and
  succeeds; fewer bytes than \<open>len(b)\<close> is \<open>io.EOF\<close>. The result is the buffer after the
  call, the number of bytes read and the error.
\<close>

definition file_ReadAt :: "os_File \<Rightarrow> byte list \<Rightarrow> int \<Rightarrow> byte list \<times> nat \<times> error option" where
  "file_ReadAt f b off =
     (if off < 0 then (b, 0, Some ErrNegativeOffset)
      else if length b = 0 then (b, 0, None)
      else if closed f then (b, 0, Some ErrClosed)
      else
        let got = take (length b) (drop (nat off) (data f)) in
        (got @ drop (length got) b, length got,
         if length got < length b then Some EOF else None))"

definition file_Close :: "os_File \<Rightarrow> error option \<times> os_File" where
  "file_Close f = (if closed f then (Some ErrClosed, f) else (None, f\<lparr>closed := True\<rparr>))"

subsection \<open>The buffered writer: \<open>bufio.Writer\<close>\<close>

text \<open>
  \<open>b_buf\<close> is the pending part \<open>buf[0:n]\<close> of the writer's buffer, \<open>b_size\<close> the length
  of the whole buffer and \<open>b_err\<close> its sticky error. The writer points to the file of the
  store that owns it, so its methods take that file and return it updated.
  \<open>bufio.NewWriter\<close> gives a buffer of 4096 bytes. The library's \<open>Flush\<close> is
  \<^verbatim>\<open>
  func (b *Writer) Flush() error {
      if b.err != nil { return b.err }
      if b.n == 0 { return nil }
      n, err := b.wr.Write(b.buf[0:b.n])
      if n < b.n && err == nil { err = io.ErrShortWrite }
      if err != nil {
          if n > 0 && n < b.n { copy(b.buf[0:b.n-n], b.buf[n:b.n]) }
          b.n -= n
          b.err = err
          return err
      }
      b.n = 0
      return nil
  }
  \<close>
\<close>

record Writer =
  b_buf :: "byte list"
  b_size :: nat
  b_err :: "error option"

definition defaultBufSize :: nat where
  "defaultBufSize = 4096"

definition NewWriter :: Writer where
  "NewWriter = \<lparr>b_buf = [], b_size = defaultBufSize, b_err = None\<rparr>"

definition Available :: "Writer \<Rightarrow> nat" where
  "Available b = b_size b - length (b_buf b)"

definition Buffered :: "Writer \<Rightarrow> nat" where
  "Buffered b = length (b_buf b)"

definition bufio_Flush :: "Writer \<Rightarrow> os_File \<Rightarrow> error option \<times> Writer \<times> os_File" where
  "bufio_Flush b f =
     (case b_err b of
        Some e \<Rightarrow> (Some e, b, f)
      | None \<Rightarrow>
          if Buffered b = 0 then (None, b, f)
          else
            (case file_Write f (b_buf b) of
               (n, e, f') \<Rightarrow>
                 let e' = (if n < Buffered b \<and> e = None then Some ErrShortWrite else e) in
                 (case e' of
                    Some er \<Rightarrow> (Some er, b\<lparr>b_buf := drop n (b_buf b), b_err := Some er\<rparr>, f')
                  | None \<Rightarrow> (None, b\<lparr>b_buf := []\<rparr>, f'))))"

lemma file_Write_props:
  assumes "file_Write f bs = (n, e, f')"
  shows "data f' = data f @ take n bs" and "n \<le> length bs"
    and "e = None \<Longrightarrow> n = length bs"
    and "closed f' = closed f" and "quota f' = quota f" and "linked f' = linked f"
    and "memory f' = memory f"
  using assms by (auto simp: file_Write_def Let_def split: if_splits)

lemma bufio_Flush_props:
  assumes "bufio_Flush b f = (e, b', f')"
  shows "data f' @ b_buf b' = data f @ b_buf b"
    and "b_err b' = e" and "b_size b' = b_size b"
    and "e = None \<Longrightarrow> b_buf b' = []"
    and "e = None \<Longrightarrow> b_err b = None"
    and "closed f' = closed f" and "quota f' = quota f" and "linked f' = linked f"
    and "memory f' = memory f"
  using assms
  by (auto simp: bufio_Flush_def Buffered_def Let_def
      split: option.splits if_splits prod.splits dest: file_Write_props)

text \<open>
  The loop of \<open>Writer.Write\<close>: while \<open>p\<close> does not fit and no error is pending, either
  write \<open>p\<close> straight to the file (empty buffer) or fill the buffer and flush it.
  \<^verbatim>\<open>
  func (b *Writer) Write(p []byte) (nn int, err error) {
      for len(p) > b.Available() && b.err == nil {
          var n int
          if b.Buffered() == 0 {
              n, b.err = b.wr.Write(p)
          } else {
              n = copy(b.buf[b.n:], p)
              b.n += n
              b.Flush()
          }
          nn += n
          p = p[n:]
      }
      if b.err != nil { return nn, b.err }
      n := copy(b.buf[b.n:], p)
      b.n += n
      nn += n
      return nn, nil
  }
  \<close>
  \<open>bufio_Write_loop\<close> is the \<open>for\<close> statement, returning the writer, the file, what is
  left of \<open>p\<close> and \<open>nn\<close>; \<open>bufio_Write\<close> is the whole method.
\<close>

function bufio_Write_loop ::
  "Writer \<Rightarrow> os_File \<Rightarrow> byte list \<Rightarrow> nat \<Rightarrow> Writer \<times> os_File \<times> byte list \<times> nat" where
  "bufio_Write_loop b f p nn =
     (if length p > Available b \<and> b_err b = None then
        (if Buffered b = 0 then
           (case file_Write f p of
              (n, e, f') \<Rightarrow> bufio_Write_loop (b\<lparr>b_err := e\<rparr>) f' (drop n p) (nn + n))
         else
           (let n = min (Available b) (length p);
                b1 = b\<lparr>b_buf := b_buf b @ take n p\<rparr>
            in case bufio_Flush b1 f of
                 (e, b2, f') \<Rightarrow> bufio_Write_loop b2 f' (drop n p) (nn + n)))
      else (b, f, p, nn))"
  by pat_completeness auto
termination
  apply (relation "measure (\<lambda>(b, f, p, nn).
          if b_err b \<noteq> None \<or> length p \<le> Available b then 0
          else if Buffered b = 0 then 1 else 2)")
    apply simp
  subgoal for b f p nn n y e f'
    using file_Write_props(3)[of f p n e f'] by (cases e) (auto simp: Available_def)
  subgoal for b f p nn n b1 e y b2 f'
    using bufio_Flush_props(2,4)[of b1 f e b2 f'] by (cases e) (auto simp: Buffered_def)
  done

declare bufio_Write_loop.simps [simp del]

definition bufio_Write ::
  "Writer \<Rightarrow> os_File \<Rightarrow> byte list \<Rightarrow> nat \<times> error option \<times> Writer \<times> os_File" where
  "bufio_Write b f p =
     (case bufio_Write_loop b f p 0 of
        (b1, f1, p1, nn) \<Rightarrow>
          (case b_err b1 of
             Some e \<Rightarrow> (nn, Some e, b1, f1)
           | None \<Rightarrow>
               let n = min (Available b1) (length p1) in
               (nn + n, None, b1\<lparr>b_buf := b_buf b1 @ take n p1\<rparr>, f1)))"

subsection \<open>The byte order: \<open>binary.BigEndian\<close> and \<open>binary.Write\<close>\<close>

definition lenWidth :: nat where
  "lenWidth = 8"

text \<open>
  \<open>enc\<close> is \<open>binary.BigEndian\<close>. Its \<open>PutUint64\<close> stores \<open>byte(v >> 56)\<close> in \<open>b[0]\<close>
  down to \<open>byte(v)\<close> in \<open>b[7]\<close>; its \<open>Uint64\<close> returns
  \<open>uint64(b[7]) | uint64(b[6])<<8 | ... | uint64(b[0])<<56\<close>.
\<close>

definition PutUint64 :: "uint64 \<Rightarrow> byte list" where
  "PutUint64 v =
     [ucast (drop_bit 56 v), ucast (drop_bit 48 v), ucast (drop_bit 40 v),
      ucast (drop_bit 32 v), ucast (drop_bit 24 v), ucast (drop_bit 16 v),
      ucast (drop_bit 8 v), ucast v]"

text \<open>\<open>Uint64\<close> indexes \<open>b[7]\<close> first: a slice shorter than eight bytes panics.\<close>

definition Uint64 :: "byte list \<Rightarrow> uint64 option" where
  "Uint64 b =
     (if length b < 8 then None
      else Some (ucast (b ! 7) OR push_bit 8 (ucast (b ! 6)) OR push_bit 16 (ucast (b ! 5))
                 OR push_bit 24 (ucast (b ! 4)) OR push_bit 32 (ucast (b ! 3))
                 OR push_bit 40 (ucast (b ! 2)) OR push_bit 48 (ucast (b ! 1))
                 OR push_bit 56 (ucast (b ! 0))))"

text \<open>\<open>binary.Write(w, enc, v)\<close> for a \<open>uint64\<close>: encode, write once, return the error.\<close>

definition binary_Write :: "Writer \<Rightarrow> os_File \<Rightarrow> uint64 \<Rightarrow> error option \<times> Writer \<times> os_File" where
  "binary_Write b f v = (case bufio_Write b f (PutUint64 v) of (n, e, b', f') \<Rightarrow> (e, b', f'))"

text \<open>
  What big-endian means: the value of a byte string read with the most significant byte
  first. \<open>PutUint64\<close> is compared with it below.
\<close>

definition be_value :: "byte list \<Rightarrow> nat" where
  "be_value bs = foldl (\<lambda>a b. 256 * a + unat b) 0 bs"

subsection \<open>Allocation: \<open>make([]byte, n)\<close>\<close>

text \<open>
  \<open>make([]byte, n)\<close> with \<open>n\<close> a \<open>uint64\<close> panics (\<open>makeslice: len out of range\<close>)
  when \<open>n\<close> exceeds the runtime's \<open>maxAlloc\<close>, which is \<open>2 ^ 48\<close> on 64-bit Linux.
  Within that bound the runtime asks the machine for the bytes: when the machine cannot
  give them the process ends with \<open>fatal error: out of memory\<close>, otherwise the result
  is \<open>n\<close> zero bytes. \<open>mem\<close> is the number of bytes the machine can give.
\<close>

definition maxAlloc :: nat where
  "maxAlloc = 2 ^ 48"

datatype alloc = Allocated "byte list" | LenOutOfRange | OutOfMemory

definition make_bytes :: "nat \<Rightarrow> nat \<Rightarrow> alloc" where
  "make_bytes mem n =
     (if n > maxAlloc then LenOutOfRange
      else if n > mem then OutOfMemory
      else Allocated (replicate n 0))"

subsection \<open>The store\<close>

text \<open>
  The field \<open>size\<close> of the source is \<open>size_s\<close> here. \<open>File\<close> is the embedded
  \<open>*os.File\<close>; \<open>buf\<close> writes to that same file.
\<close>

record store =
  File :: os_File
  buf :: Writer
  size_s :: uint64

definition newStore :: "os_File \<Rightarrow> error + store" where
  "newStore f =
     (case os_Stat f of
        Inl err \<Rightarrow> Inl err
      | Inr fi_Size \<Rightarrow> Inr \<lparr>File = f, buf = NewWriter, size_s = of_nat fi_Size\<rparr>)"

text \<open>
  \<open>Append\<close> returns \<open>(n, pos)\<close> or the error, and the store after the call. The two
  early returns leave \<open>size\<close> as it was; what the writer did before failing stays done.
\<close>

definition Append :: "store \<Rightarrow> byte list \<Rightarrow> (error + uint64 \<times> uint64) \<times> store" where
  "Append s p =
     (let pos = size_s s in
      case binary_Write (buf s) (File s) (of_nat (length p)) of
        (Some err, b1, f1) \<Rightarrow> (Inl err, s\<lparr>File := f1, buf := b1\<rparr>)
      | (None, b1, f1) \<Rightarrow>
          (case bufio_Write b1 f1 p of
             (w, Some err, b2, f2) \<Rightarrow> (Inl err, s\<lparr>File := f2, buf := b2\<rparr>)
           | (w, None, b2, f2) \<Rightarrow>
               let n = of_nat (w + lenWidth) in
               (Inr (n, pos), s\<lparr>File := f2, buf := b2, size_s := n\<rparr>)))"

text \<open>The flush that opens \<open>Read\<close>, \<open>ReadAt\<close> and \<open>Close\<close>, as a step on the store.\<close>

definition flush :: "store \<Rightarrow> error option \<times> store" where
  "flush s = (case bufio_Flush (buf s) (File s) of (e, b1, f1) \<Rightarrow> (e, s\<lparr>File := f1, buf := b1\<rparr>))"

text \<open>
  In \<open>Read\<close>, the eight bytes of \<open>size\<close> do not leave the function and are on the stack,
  as the comment at that line of the source says; the payload slice \<open>b\<close> is returned and
  comes from the heap, with a length read from the file.
\<close>

definition Read :: "store \<Rightarrow> uint64 \<Rightarrow> byte list outcome \<times> store" where
  "Read s pos =
     (case flush s of
        (Some err, s1) \<Rightarrow> (Err err, s1)
      | (None, s1) \<Rightarrow>
          (case file_ReadAt (File s1) (replicate lenWidth 0) (sint pos) of
             (size_b, _, Some err) \<Rightarrow> (Err err, s1)
           | (size_b, _, None) \<Rightarrow>
               (case Uint64 size_b of
                  None \<Rightarrow> (Panic, s1)
                | Some n \<Rightarrow>
                    (case make_bytes (memory (File s1)) (unat n) of
                       LenOutOfRange \<Rightarrow> (Panic, s1)
                     | OutOfMemory \<Rightarrow> (Fatal, s1)
                     | Allocated b0 \<Rightarrow>
                         (case file_ReadAt (File s1) b0 (sint (pos + of_nat lenWidth)) of
                            (b, _, Some err) \<Rightarrow> (Err err, s1)
                          | (b, _, None) \<Rightarrow> (Ok b, s1))))))"

definition ReadAt :: "store \<Rightarrow> byte list \<Rightarrow> int \<Rightarrow> (byte list \<times> nat \<times> error option) \<times> store" where
  "ReadAt s p off =
     (case flush s of
        (Some err, s1) \<Rightarrow> ((p, 0, Some err), s1)
      | (None, s1) \<Rightarrow> (file_ReadAt (File s1) p off, s1))"

definition Close :: "store \<Rightarrow> error option \<times> store" where
  "Close s =
     (case flush s of
        (Some err, s1) \<Rightarrow> (Some err, s1)
      | (None, s1) \<Rightarrow> (case file_Close (File s1) of (e, f2) \<Rightarrow> (e, s1\<lparr>File := f2\<rparr>)))"

text \<open>
  The logical content of a store: what is on disk followed by what the writer still holds.
\<close>

definition content :: "store \<Rightarrow> byte list" where
  "content s = data (File s) @ b_buf (buf s)"

subsection \<open>Sequences of calls\<close>

text \<open>
  A caller that appends the records of a list one after the other and stops at the first
  error, collecting each \<open>(n, pos)\<close>; and a caller that issues reads only.
\<close>

fun Append_all :: "store \<Rightarrow> byte list list \<Rightarrow> (error + (uint64 \<times> uint64) list) \<times> store" where
  "Append_all s [] = (Inr [], s)"
| "Append_all s (p # ps) =
     (case Append s p of
        (Inl err, s1) \<Rightarrow> (Inl err, s1)
      | (Inr r, s1) \<Rightarrow>
          (case Append_all s1 ps of
             (Inl err, s2) \<Rightarrow> (Inl err, s2)
           | (Inr rs, s2) \<Rightarrow> (Inr (r # rs), s2)))"




subsection \<open>Stores used as examples\<close>

text \<open>
  An empty file on a disk with room for 4096 bytes, on a machine that can allocate 65536
  bytes, and the store that \<open>newStore\<close> builds over it.
\<close>

definition empty_file :: os_File where
  "empty_file = \<lparr>data = [], closed = False, quota = 4096, linked = True, memory = 65536\<rparr>"

definition fresh :: store where
  "fresh = \<lparr>File = empty_file, buf = NewWriter, size_s = 0\<rparr>"

text \<open>
  The same store after \<open>Append("hi")\<close>, with the record still in the buffer, and after
  a flush, with the record on disk.
\<close>

definition hi_buffered :: store where
  "hi_buffered = fresh\<lparr>buf := NewWriter\<lparr>b_buf := [0, 0, 0, 0, 0, 0, 0, 2, 104, 105]\<rparr>, size_s := 10\<rparr>"

definition hi_flushed :: store where
  "hi_flushed = fresh\<lparr>File := empty_file\<lparr>data := [0, 0, 0, 0, 0, 0, 0, 2, 104, 105]\<rparr>, size_s := 10\<rparr>"

text \<open>
  The store over \<open>empty_file\<close> with given bytes pending in the writer, or with given
  bytes on disk, and a given \<open>size\<close>.
\<close>

definition with_buffer :: "byte list \<Rightarrow> uint64 \<Rightarrow> store" where
  "with_buffer bs n = fresh\<lparr>buf := NewWriter\<lparr>b_buf := bs\<rparr>, size_s := n\<rparr>"

definition on_disk :: "byte list \<Rightarrow> uint64 \<Rightarrow> store" where
  "on_disk bs n = fresh\<lparr>File := empty_file\<lparr>data := bs\<rparr>, size_s := n\<rparr>"

text \<open>
  A file that ends two bytes into a record of five; a file of three bytes that exists
  already; and a store with a record pending on a disk that has room for four bytes.
\<close>

definition short_store :: store where
  "short_store = on_disk [0, 0, 0, 0, 0, 0, 0, 5, 1, 2] 10"

definition abc_file :: os_File where
  "abc_file = \<lparr>data = [1, 2, 3], closed = False, quota = 4096, linked = True, memory = 65536\<rparr>"

definition cramped :: store where
  "cramped = \<lparr>File = empty_file\<lparr>quota := 4\<rparr>,
              buf = NewWriter\<lparr>b_buf := [0, 0, 0, 0, 0, 0, 0, 2, 104, 105]\<rparr>, size_s = 10\<rparr>"

section \<open>Facts about the library model\<close>

subsection \<open>The length prefix decodes to what was encoded\<close>

lemma Uint64_bytes:
  fixes v :: uint64
  shows "ucast (ucast v :: byte) OR push_bit 8 (ucast (ucast (drop_bit 8 v) :: byte))
      OR push_bit 16 (ucast (ucast (drop_bit 16 v) :: byte))
      OR push_bit 24 (ucast (ucast (drop_bit 24 v) :: byte))
      OR push_bit 32 (ucast (ucast (drop_bit 32 v) :: byte))
      OR push_bit 40 (ucast (ucast (drop_bit 40 v) :: byte))
      OR push_bit 48 (ucast (ucast (drop_bit 48 v) :: byte))
      OR push_bit 56 (ucast (ucast (drop_bit 56 v) :: byte)) = v" (is "?l = v")
proof (rule bit_eqI)
  fix n :: nat
  assume "possible_bit TYPE(uint64) n"
  then have n: "n < 64" by simp
  consider "n < 8" | "8 \<le> n" "n < 16" | "16 \<le> n" "n < 24" | "24 \<le> n" "n < 32"
    | "32 \<le> n" "n < 40" | "40 \<le> n" "n < 48" | "48 \<le> n" "n < 56" | "56 \<le> n" "n < 64"
    using n by linarith
  then show "bit ?l n = bit v n"
    by cases (auto simp: bit_simps)
qed

lemma Uint64_PutUint64: "Uint64 (PutUint64 v) = Some v"
  using Uint64_bytes[of v] by (simp add: Uint64_def PutUint64_def)

lemma length_PutUint64: "length (PutUint64 v) = 8"
  by (simp add: PutUint64_def)

subsection \<open>\<open>PutUint64\<close> is big-endian\<close>

lemma unat_drop_bit_div:
  fixes v :: uint64
  shows "unat (drop_bit k v) = unat v div 2 ^ k"
proof -
  have "unat (drop_bit k v) = drop_bit k (unat v)" by (rule unat_drop_bit_eq)
  also have "\<dots> = unat v div 2 ^ k" by (rule drop_bit_eq_div)
  finally show ?thesis .
qed

lemma unat_low_byte:
  fixes v :: uint64
  shows "unat (ucast v :: byte) = unat v mod 256"
  by (simp add: unsigned_ucast_eq take_bit_eq_mod)

lemma be_value_PutUint64: "be_value (PutUint64 v) = unat v"
proof -
  define y0 where "y0 = unat v"
  define y1 where "y1 = y0 div 256"
  define y2 where "y2 = y1 div 256"
  define y3 where "y3 = y2 div 256"
  define y4 where "y4 = y3 div 256"
  define y5 where "y5 = y4 div 256"
  define y6 where "y6 = y5 div 256"
  define y7 where "y7 = y6 div 256"
  have d1: "y0 div 2 ^ 8 = y1" by (simp add: y1_def)
  have d2: "y0 div 2 ^ 16 = y2" unfolding y2_def d1[symmetric] by (simp add: div_mult2_eq[symmetric])
  have d3: "y0 div 2 ^ 24 = y3" unfolding y3_def d2[symmetric] by (simp add: div_mult2_eq[symmetric])
  have d4: "y0 div 2 ^ 32 = y4" unfolding y4_def d3[symmetric] by (simp add: div_mult2_eq[symmetric])
  have d5: "y0 div 2 ^ 40 = y5" unfolding y5_def d4[symmetric] by (simp add: div_mult2_eq[symmetric])
  have d6: "y0 div 2 ^ 48 = y6" unfolding y6_def d5[symmetric] by (simp add: div_mult2_eq[symmetric])
  have d7: "y0 div 2 ^ 56 = y7" unfolding y7_def d6[symmetric] by (simp add: div_mult2_eq[symmetric])
  have "y0 < 2 ^ 64" unfolding y0_def using unsigned_less[of v, where 'a = nat] by simp
  then have "y0 div 2 ^ 56 < 256" by (simp add: less_mult_imp_div_less)
  then have s7: "y7 mod 256 = y7" using d7 by simp
  have "be_value (PutUint64 v) =
     256 * (256 * (256 * (256 * (256 * (256 * (256 * (y7 mod 256) + y6 mod 256) + y5 mod 256)
       + y4 mod 256) + y3 mod 256) + y2 mod 256) + y1 mod 256) + y0 mod 256"
    unfolding be_value_def PutUint64_def
    by (simp only: foldl.simps unat_low_byte unat_drop_bit_div y0_def[symmetric] d1 d2 d3 d4 d5 d6 d7
        mult_0_right add_0_left)
  also have "\<dots> = y0"
    unfolding s7
    unfolding y7_def mult_div_mod_eq
    unfolding y6_def mult_div_mod_eq
    unfolding y5_def mult_div_mod_eq
    unfolding y4_def mult_div_mod_eq
    unfolding y3_def mult_div_mod_eq
    unfolding y2_def mult_div_mod_eq
    unfolding y1_def mult_div_mod_eq
    by (rule refl)
  finally show ?thesis by (simp add: y0_def)
qed

subsection \<open>The writer never loses or reorders bytes\<close>

lemma loop_done:
  "\<not> (length p > Available b \<and> b_err b = None) \<Longrightarrow> bufio_Write_loop b f p nn = (b, f, p, nn)"
  by (subst bufio_Write_loop.simps) auto

lemma loop_direct:
  "length p > Available b \<Longrightarrow> b_err b = None \<Longrightarrow> Buffered b = 0 \<Longrightarrow> file_Write f p = (n, e, f')
   \<Longrightarrow> bufio_Write_loop b f p nn = bufio_Write_loop (b\<lparr>b_err := e\<rparr>) f' (drop n p) (nn + n)"
  by (subst bufio_Write_loop.simps) simp

lemma loop_fill:
  "length p > Available b \<Longrightarrow> b_err b = None \<Longrightarrow> Buffered b \<noteq> 0
   \<Longrightarrow> n = min (Available b) (length p)
   \<Longrightarrow> bufio_Flush (b\<lparr>b_buf := b_buf b @ take n p\<rparr>) f = (e, b2, f')
   \<Longrightarrow> bufio_Write_loop b f p nn = bufio_Write_loop b2 f' (drop n p) (nn + n)"
  by (subst bufio_Write_loop.simps) (simp add: Let_def)

lemma bufio_Write_loop_props: "bufio_Write_loop b f p nn = (b', f', p', nn') \<Longrightarrow>
    data f' @ b_buf b' @ p' = data f @ b_buf b @ p \<and> nn' + length p' = nn + length p
    \<and> (b_err b' = None \<longrightarrow> length p' \<le> Available b') \<and> b_size b' = b_size b
    \<and> closed f' = closed f \<and> quota f' = quota f \<and> linked f' = linked f
    \<and> memory f' = memory f"
proof (induction b f p nn rule: bufio_Write_loop.induct)
  case (1 b f p nn)
  show ?case
  proof (cases "length p > Available b \<and> b_err b = None")
    case False
    from "1.prems" loop_done[OF False, of f nn] have "(b', f', p', nn') = (b, f, p, nn)" by simp
    with False show ?thesis by auto
  next
    case True
    note T = True
    show ?thesis
    proof (cases "Buffered b = 0")
      case True
      obtain n e f1 where w: "file_Write f p = (n, e, f1)" by (cases "file_Write f p") auto
      from "1.prems" loop_direct[OF _ _ True w, of nn] T
      have r: "bufio_Write_loop (b\<lparr>b_err := e\<rparr>) f1 (drop n p) (nn + n) = (b', f', p', nn')"
        by simp
      note ih = "1.IH"(1)[OF T True w[symmetric] refl r]
      from True have bb: "b_buf b = []" by (simp add: Buffered_def)
      from file_Write_props(1)[OF w] ih bb
      have "data f' @ b_buf b' @ p' = data f @ b_buf b @ take n p @ drop n p" by simp
      then have C: "data f' @ b_buf b' @ p' = data f @ b_buf b @ p" by simp
      from file_Write_props(2)[OF w] ih have D: "nn' + length p' = nn + length p" by simp
      from file_Write_props(4,5,6,7)[OF w] ih
      have E: "b_size b' = b_size b" "closed f' = closed f" "quota f' = quota f" "linked f' = linked f"
        "memory f' = memory f"
        by simp_all
      from ih have F: "b_err b' = None \<longrightarrow> length p' \<le> Available b'" by simp
      from C D E F show ?thesis by simp
    next
      case False
      define n where "n = min (Available b) (length p)"
      define b1 where "b1 = b\<lparr>b_buf := b_buf b @ take n p\<rparr>"
      obtain e b2 f1 where fl: "bufio_Flush b1 f = (e, b2, f1)" by (cases "bufio_Flush b1 f") auto
      from "1.prems" loop_fill[OF _ _ False n_def fl[unfolded b1_def], of nn] T
      have r: "bufio_Write_loop b2 f1 (drop n p) (nn + n) = (b', f', p', nn')"
        by simp
      note ih = "1.IH"(2)[OF T False n_def b1_def fl[symmetric] refl r]
      from bufio_Flush_props(1)[OF fl]
      have A: "data f1 @ b_buf b2 = data f @ b_buf b @ take n p" by (simp add: b1_def)
      from ih have "data f' @ b_buf b' @ p' = (data f1 @ b_buf b2) @ drop n p" by simp
      also have "\<dots> = data f @ b_buf b @ p" unfolding A by simp
      finally have C: "data f' @ b_buf b' @ p' = data f @ b_buf b @ p" .
      have L: "n \<le> length p" by (simp add: n_def)
      from ih L have D: "nn' + length p' = nn + length p" by simp
      from bufio_Flush_props(3,6,7,8,9)[OF fl] ih
      have E: "b_size b' = b_size b" "closed f' = closed f" "quota f' = quota f" "linked f' = linked f"
        "memory f' = memory f"
        by (simp_all add: b1_def)
      from ih have F: "b_err b' = None \<longrightarrow> length p' \<le> Available b'" by simp
      from C D E F show ?thesis by simp
    qed
  qed
qed

lemma append_eq_split:
  assumes "xs @ ys = zs @ ws" and "length ys + k = length ws"
  shows "xs = zs @ take k ws" and "ys = drop k ws"
proof -
  have "length (xs @ ys) = length (zs @ ws)" by (simp only: assms(1))
  with assms(2) have len: "length xs = length zs + k" by simp
  have "take (length xs) (xs @ ys) = take (length xs) (zs @ ws)" by (simp only: assms(1))
  with len show "xs = zs @ take k ws" by simp
  have "drop (length xs) (xs @ ys) = drop (length xs) (zs @ ws)" by (simp only: assms(1))
  with len show "ys = drop k ws" by simp
qed

lemma bufio_Write_all:
  assumes "bufio_Write b f p = (n, e, b', f')"
  shows "data f' @ b_buf b' = data f @ b_buf b @ take n p \<and>
         n \<le> length p \<and> (e = None \<longrightarrow> n = length p) \<and> b_err b' = e \<and>
         b_size b' = b_size b \<and> closed f' = closed f \<and> quota f' = quota f \<and>
         linked f' = linked f \<and> memory f' = memory f"
proof -
  obtain b1 f1 p1 nn where l: "bufio_Write_loop b f p 0 = (b1, f1, p1, nn)"
    by (cases "bufio_Write_loop b f p 0") auto
  note lp = bufio_Write_loop_props[OF l]
  from lp have c: "(data f1 @ b_buf b1) @ p1 = (data f @ b_buf b) @ p"
    and len: "length p1 + nn = length p" by simp_all
  note sp = append_eq_split[OF c len]
  show ?thesis
  proof (cases "b_err b1")
    case None
    with lp have fit: "min (Available b1) (length p1) = length p1" by simp
    from assms l None fit
    have r: "n = nn + length p1" "e = None" "b' = b1\<lparr>b_buf := b_buf b1 @ p1\<rparr>" "f' = f1"
      by (simp_all add: bufio_Write_def Let_def)
    from r lp len c None show ?thesis by simp
  next
    case (Some er)
    from assms l Some have r: "n = nn" "e = Some er" "b' = b1" "f' = f1"
      by (simp_all add: bufio_Write_def)
    from r lp len sp(1) Some show ?thesis by simp
  qed
qed

lemma bufio_Write_props:
  assumes "bufio_Write b f p = (n, e, b', f')"
  shows "data f' @ b_buf b' = data f @ b_buf b @ take n p"
    and "n \<le> length p" and "e = None \<Longrightarrow> n = length p"
    and "b_err b' = e" and "b_size b' = b_size b"
    and "closed f' = closed f" and "quota f' = quota f" and "linked f' = linked f"
    and "memory f' = memory f"
  using bufio_Write_all[OF assms] by simp_all

subsection \<open>A write that succeeds on a closed file wrote nothing\<close>

lemma loop_err_sticky:
  "b_err b \<noteq> None \<Longrightarrow> bufio_Write_loop b f p nn = (b, f, p, nn)"
  by (rule loop_done) simp

lemma file_Write_closed: "closed f \<Longrightarrow> file_Write f bs = (0, Some ErrClosed, f)"
  by (simp add: file_Write_def)

lemma bufio_Flush_closed:
  assumes "closed f" and "b_buf b \<noteq> []" and "bufio_Flush b f = (e, b', f')"
  shows "e \<noteq> None"
proof (cases "b_err b")
  case None
  with assms show ?thesis
    by (auto simp: bufio_Flush_def Buffered_def file_Write_closed)
next
  case (Some er)
  with bufio_Flush_props(5)[OF assms(3)] show ?thesis by auto
qed

lemma bufio_Write_loop_open:
  "bufio_Write_loop b f p nn = (b', f', p', nn') \<Longrightarrow> b_err b' = None \<Longrightarrow>
   (b' = b \<and> f' = f \<and> p' = p \<and> nn' = nn) \<or> \<not> closed f"
proof (induction b f p nn rule: bufio_Write_loop.induct)
  case (1 b f p nn)
  show ?case
  proof (cases "length p > Available b \<and> b_err b = None")
    case False
    from "1.prems"(1) loop_done[OF False, of f nn] show ?thesis by simp
  next
    case True
    note T = True
    show ?thesis
    proof (cases "closed f")
      case False
      then show ?thesis by simp
    next
      case True
      note C = True
      have "b_err b' \<noteq> None"
      proof (cases "Buffered b = 0")
        case True
        from loop_direct[OF _ _ True file_Write_closed[OF C], of p nn] T "1.prems"(1)
        have "bufio_Write_loop (b\<lparr>b_err := Some ErrClosed\<rparr>) f (drop 0 p) (nn + 0) = (b', f', p', nn')"
          by simp
        with loop_err_sticky[of "b\<lparr>b_err := Some ErrClosed\<rparr>" f "drop 0 p" "nn + 0"]
        show ?thesis by auto
      next
        case False
        define n where "n = min (Available b) (length p)"
        define b1 where "b1 = b\<lparr>b_buf := b_buf b @ take n p\<rparr>"
        obtain e b2 f1 where fl: "bufio_Flush b1 f = (e, b2, f1)" by (cases "bufio_Flush b1 f") auto
        from False have ne: "b_buf b1 \<noteq> []" by (simp add: b1_def Buffered_def)
        from bufio_Flush_closed[OF C ne fl] bufio_Flush_props(2)[OF fl]
        have e2: "b_err b2 \<noteq> None" by simp
        from "1.prems"(1) loop_fill[OF _ _ False n_def fl[unfolded b1_def], of nn] T
        have "bufio_Write_loop b2 f1 (drop n p) (nn + n) = (b', f', p', nn')" by simp
        with loop_err_sticky[OF e2, of f1 "drop n p" "nn + n"] e2 show ?thesis by auto
      qed
      with "1.prems"(2) show ?thesis by simp
    qed
  qed
qed

lemma bufio_Write_open:
  assumes "bufio_Write b f p = (n, None, b', f')" and "b_buf b \<noteq> [] \<or> p \<noteq> []"
  shows "b_buf b' \<noteq> [] \<or> \<not> closed f'"
proof -
  obtain b1 f1 p1 nn where l: "bufio_Write_loop b f p 0 = (b1, f1, p1, nn)"
    by (cases "bufio_Write_loop b f p 0") auto
  from assms(1) l have e: "b_err b1 = None"
    by (cases "b_err b1") (simp_all add: bufio_Write_def)
  from bufio_Write_loop_props[OF l] e
  have fit: "min (Available b1) (length p1) = length p1" by simp
  from assms(1) l e fit have r: "b' = b1\<lparr>b_buf := b_buf b1 @ p1\<rparr>" "f' = f1"
    by (simp_all add: bufio_Write_def Let_def)
  from bufio_Write_loop_open[OF l e] show ?thesis
  proof
    assume "b1 = b \<and> f1 = f \<and> p1 = p \<and> nn = 0"
    with r assms(2) show ?thesis by auto
  next
    assume "\<not> closed f"
    with bufio_Write_props(6)[OF assms(1)] show ?thesis by simp
  qed
qed

subsection \<open>A write that fits on the disk succeeds\<close>

lemma file_Write_fits:
  assumes "\<not> closed f" and "length (data f) + length bs \<le> quota f"
  shows "file_Write f bs = (length bs, None, f\<lparr>data := data f @ bs\<rparr>)"
  using assms by (simp add: file_Write_def Let_def)

lemma bufio_Flush_fits:
  assumes "b_err b = None" and "\<not> closed f" and "length (data f) + length (b_buf b) \<le> quota f"
  shows "fst (bufio_Flush b f) = None"
proof (cases "Buffered b = 0")
  case True
  with assms(1) show ?thesis by (simp add: bufio_Flush_def)
next
  case False
  with assms(1) file_Write_fits[OF assms(2,3)] show ?thesis
    by (simp add: bufio_Flush_def Buffered_def)
qed

lemma bufio_Write_loop_fits:
  "b_err b = None \<Longrightarrow> \<not> closed f \<Longrightarrow> length (data f) + length (b_buf b) + length p \<le> quota f \<Longrightarrow>
   bufio_Write_loop b f p nn = (b', f', p', nn') \<Longrightarrow> b_err b' = None"
proof (induction b f p nn rule: bufio_Write_loop.induct)
  case (1 b f p nn)
  note e = "1.prems"(1) and op = "1.prems"(2) and q = "1.prems"(3) and l = "1.prems"(4)
  show ?case
  proof (cases "length p > Available b \<and> b_err b = None")
    case False
    from l loop_done[OF False, of f nn] e show ?thesis by simp
  next
    case True
    note T = True
    show ?thesis
    proof (cases "Buffered b = 0")
      case True
      from q have "length (data f) + length p \<le> quota f" by simp
      note w = file_Write_fits[OF op this]
      from l loop_direct[OF _ _ True w, of nn] T
      have r: "bufio_Write_loop (b\<lparr>b_err := None\<rparr>) (f\<lparr>data := data f @ p\<rparr>) (drop (length p) p)
                 (nn + length p) = (b', f', p', nn')"
        by simp
      from True have bb: "b_buf b = []" by (simp add: Buffered_def)
      show ?thesis
        by (rule "1.IH"(1)[OF T True w[symmetric] refl _ _ _ r]) (use op q bb in simp_all)
    next
      case False
      define n where "n = min (Available b) (length p)"
      define b1 where "b1 = b\<lparr>b_buf := b_buf b @ take n p\<rparr>"
      obtain e1 b2 f1 where fl: "bufio_Flush b1 f = (e1, b2, f1)" by (cases "bufio_Flush b1 f") auto
      have "length (data f) + length (b_buf b1) \<le> quota f" using q by (simp add: b1_def n_def)
      with bufio_Flush_fits[of b1 f] e op fl have e1: "e1 = None" by (simp add: b1_def)
      note fp = bufio_Flush_props[OF fl]
      from l loop_fill[OF _ _ False n_def fl[unfolded b1_def], of nn] T
      have r: "bufio_Write_loop b2 f1 (drop n p) (nn + n) = (b', f', p', nn')" by simp
      from fp(1) have "length (data f1 @ b_buf b2) = length (data f @ b_buf b1)" by simp
      then have tot: "length (data f1) + length (b_buf b2) + length (drop n p) \<le> quota f1"
        using q fp(7) by (simp add: b1_def n_def)
      show ?thesis
        by (rule "1.IH"(2)[OF T False n_def b1_def fl[symmetric] refl _ _ tot r])
          (use fp e1 op in simp_all)
    qed
  qed
qed

lemma bufio_Write_fits:
  assumes "b_err b = None" and "\<not> closed f"
    and "length (data f) + length (b_buf b) + length p \<le> quota f"
  shows "\<exists>b' f'. bufio_Write b f p = (length p, None, b', f')"
proof -
  obtain n e b' f' where w: "bufio_Write b f p = (n, e, b', f')" by (metis prod_cases4)
  obtain b1 f1 p1 nn where l: "bufio_Write_loop b f p 0 = (b1, f1, p1, nn)"
    by (cases "bufio_Write_loop b f p 0") auto
  from bufio_Write_loop_fits[OF assms l] have "b_err b1 = None" .
  with w l have "e = None" by (auto simp: bufio_Write_def Let_def)
  with bufio_Write_props(3)[OF w] w show ?thesis by simp
qed

subsection \<open>Evaluating the model on concrete stores\<close>

lemmas model_defs = os_Stat_def file_Write_def file_ReadAt_def file_Close_def
  NewWriter_def defaultBufSize_def Available_def Buffered_def bufio_Flush_def
  bufio_Write_loop.simps bufio_Write_def lenWidth_def PutUint64_def Uint64_def
  binary_Write_def maxAlloc_def make_bytes_def newStore_def Append_def flush_def
  Read_def ReadAt_def Close_def content_def Let_def

lemma newStore_empty_file: "newStore empty_file = Inr fresh"
  by (simp add: model_defs empty_file_def fresh_def)

lemma Append_fresh_hi: "Append fresh [104, 105] = (Inr (10, 0), hi_buffered)"
  by (simp add: model_defs empty_file_def fresh_def hi_buffered_def)

lemma flush_hi_buffered: "flush hi_buffered = (None, hi_flushed)"
  by (simp add: model_defs empty_file_def fresh_def hi_buffered_def hi_flushed_def)

lemmas example_defs = empty_file_def fresh_def with_buffer_def on_disk_def

lemma Append_a: "Append fresh [97] = (Inr (9, 0), with_buffer [0, 0, 0, 0, 0, 0, 0, 1, 97] 9)"
  by (simp add: model_defs example_defs)

lemma Append_ab:
  "Append (with_buffer [0, 0, 0, 0, 0, 0, 0, 1, 97] 9) [98] =
     (Inr (9, 9), with_buffer [0, 0, 0, 0, 0, 0, 0, 1, 97, 0, 0, 0, 0, 0, 0, 0, 1, 98] 9)"
  by (simp add: model_defs example_defs)

lemma Append_abc:
  "Append (with_buffer [0, 0, 0, 0, 0, 0, 0, 1, 97, 0, 0, 0, 0, 0, 0, 0, 1, 98] 9) [99] =
     (Inr (9, 9), with_buffer [0, 0, 0, 0, 0, 0, 0, 1, 97, 0, 0, 0, 0, 0, 0, 0, 1, 98,
                               0, 0, 0, 0, 0, 0, 0, 1, 99] 9)"
  by (simp add: model_defs example_defs)

lemma Append_all_abc:
  "Append_all fresh [[97], [98], [99]] =
     (Inr [(9, 0), (9, 9), (9, 9)],
      with_buffer [0, 0, 0, 0, 0, 0, 0, 1, 97, 0, 0, 0, 0, 0, 0, 0, 1, 98,
                   0, 0, 0, 0, 0, 0, 0, 1, 99] 9)"
  by (simp add: Append_a Append_ab Append_abc)

lemma Read_abc_9:
  "Read (with_buffer [0, 0, 0, 0, 0, 0, 0, 1, 97, 0, 0, 0, 0, 0, 0, 0, 1, 98,
                      0, 0, 0, 0, 0, 0, 0, 1, 99] 9) 9 =
     (Ok [98], on_disk [0, 0, 0, 0, 0, 0, 0, 1, 97, 0, 0, 0, 0, 0, 0, 0, 1, 98,
                        0, 0, 0, 0, 0, 0, 0, 1, 99] 9)"
  by (simp add: model_defs example_defs)

lemmas example_defs2 = example_defs short_store_def abc_file_def cramped_def hi_buffered_def hi_flushed_def

section \<open>Facts about the store\<close>

lemma flush_props:
  assumes "flush s = (e, s1)"
  shows "content s1 = content s" and "size_s s1 = size_s s"
    and "b_err (buf s1) = e" and "b_size (buf s1) = b_size (buf s)"
    and "e = None \<Longrightarrow> b_buf (buf s1) = []" and "e = None \<Longrightarrow> data (File s1) = content s"
    and "closed (File s1) = closed (File s)" and "quota (File s1) = quota (File s)"
    and "linked (File s1) = linked (File s)" and "memory (File s1) = memory (File s)"
proof -
  obtain b1 f1 where fl: "bufio_Flush (buf s) (File s) = (e, b1, f1)"
    and s1: "s1 = s\<lparr>File := f1, buf := b1\<rparr>"
    using assms by (auto simp: flush_def split: prod.splits)
  note fp = bufio_Flush_props[OF fl]
  from fp s1 show "content s1 = content s" and "size_s s1 = size_s s"
    and "b_err (buf s1) = e" and "b_size (buf s1) = b_size (buf s)"
    and "closed (File s1) = closed (File s)" and "quota (File s1) = quota (File s)"
    and "linked (File s1) = linked (File s)"
    by (simp_all add: content_def)
  from fp s1 show "memory (File s1) = memory (File s)" by simp
  from fp s1 show "e = None \<Longrightarrow> b_buf (buf s1) = []" by simp
  from fp(1,4) s1 show "e = None \<Longrightarrow> data (File s1) = content s" by (simp add: content_def)
qed

lemma Append_Inr:
  assumes "Append s p = (Inr (n, pos), s')"
  shows "n = of_nat (length p + lenWidth)" and "pos = size_s s" and "size_s s' = n"
    and "content s' = content s @ PutUint64 (of_nat (length p)) @ p"
    and "b_err (buf s') = None" and "b_size (buf s') = b_size (buf s)"
    and "closed (File s') = closed (File s)" and "quota (File s') = quota (File s)"
    and "linked (File s') = linked (File s)" and "memory (File s') = memory (File s)"
proof -
  obtain n1 e1 b1 f1 where w1: "bufio_Write (buf s) (File s) (PutUint64 (of_nat (length p))) = (n1, e1, b1, f1)"
    by (metis prod_cases4)
  obtain w e2 b2 f2 where w2: "bufio_Write b1 f1 p = (w, e2, b2, f2)"
    by (metis prod_cases4)
  from assms w1 have e1: "e1 = None"
    by (cases e1) (simp_all add: Append_def binary_Write_def Let_def)
  from assms w1 w2 e1 have e2: "e2 = None"
    by (cases e2) (simp_all add: Append_def binary_Write_def Let_def)
  from assms w1 w2 e1 e2
  have r: "n = of_nat (w + lenWidth)" "pos = size_s s" "s' = s\<lparr>File := f2, buf := b2, size_s := n\<rparr>"
    by (auto simp: Append_def binary_Write_def Let_def)
  note p1 = bufio_Write_props[OF w1] and p2 = bufio_Write_props[OF w2]
  from p1(3) e1 have n1: "n1 = 8" by (simp add: length_PutUint64)
  from p2(3) e2 have w: "w = length p" by simp
  from r w show "n = of_nat (length p + lenWidth)" and "pos = size_s s" and "size_s s' = n"
    by simp_all
  from p1(1) n1 have c1: "data f1 @ b_buf b1 = content s @ PutUint64 (of_nat (length p))"
    by (simp add: content_def length_PutUint64)
  from p2(1) w have "data f2 @ b_buf b2 = (data f1 @ b_buf b1) @ p" by simp
  with c1 r show "content s' = content s @ PutUint64 (of_nat (length p)) @ p"
    by (simp add: content_def)
  from r p1 p2 e2 show "b_err (buf s') = None" and "b_size (buf s') = b_size (buf s)"
    and "closed (File s') = closed (File s)" and "quota (File s') = quota (File s)"
    and "linked (File s') = linked (File s)" and "memory (File s') = memory (File s)"
    by simp_all
qed

lemma Append_open:
  assumes "Append s p = (Inr (n, pos), s')"
  shows "b_buf (buf s') \<noteq> [] \<or> \<not> closed (File s')"
proof -
  obtain n1 e1 b1 f1 where w1: "bufio_Write (buf s) (File s) (PutUint64 (of_nat (length p))) = (n1, e1, b1, f1)"
    by (metis prod_cases4)
  obtain w e2 b2 f2 where w2: "bufio_Write b1 f1 p = (w, e2, b2, f2)"
    by (metis prod_cases4)
  from assms w1 have e1: "e1 = None"
    by (cases e1) (simp_all add: Append_def binary_Write_def Let_def)
  from assms w1 w2 e1 have e2: "e2 = None"
    by (cases e2) (simp_all add: Append_def binary_Write_def Let_def)
  from assms w1 w2 e1 e2
  have r: "s' = s\<lparr>File := f2, buf := b2, size_s := n\<rparr>"
    by (auto simp: Append_def binary_Write_def Let_def)
  have "PutUint64 (of_nat (length p)) \<noteq> []" by (simp add: PutUint64_def)
  with bufio_Write_open[OF w1[unfolded e1]] have o1: "b_buf b1 \<noteq> [] \<or> \<not> closed f1" by simp
  then have "b_buf b2 \<noteq> [] \<or> \<not> closed f2"
  proof
    assume "b_buf b1 \<noteq> []"
    with bufio_Write_open[OF w2[unfolded e2]] show ?thesis by simp
  next
    assume "\<not> closed f1"
    with bufio_Write_props(6)[OF w2] show ?thesis by simp
  qed
  with r show ?thesis by simp
qed

lemma flush_ok_open:
  assumes "flush s = (None, s1)" and "b_buf (buf s) \<noteq> [] \<or> \<not> closed (File s)"
  shows "\<not> closed (File s1)"
proof -
  obtain b1 f1 where fl: "bufio_Flush (buf s) (File s) = (None, b1, f1)"
    and s1: "s1 = s\<lparr>File := f1, buf := b1\<rparr>"
    using assms(1) by (auto simp: flush_def split: prod.splits)
  from assms(2) show ?thesis
  proof
    assume ne: "b_buf (buf s) \<noteq> []"
    show ?thesis
    proof
      assume "closed (File s1)"
      with s1 bufio_Flush_props(6)[OF fl] have "closed (File s)" by simp
      from bufio_Flush_closed[OF this ne fl] show False by simp
    qed
  next
    assume "\<not> closed (File s)"
    with s1 bufio_Flush_props(6)[OF fl] show ?thesis by simp
  qed
qed

text \<open>An \<open>Append\<close> returns its result whenever the disk has room for the record.\<close>

lemma Append_succeeds:
  assumes "b_err (buf s) = None" and "\<not> closed (File s)"
    and "length (content s) + lenWidth + length p \<le> quota (File s)"
  shows "\<exists>s'. Append s p = (Inr (of_nat (length p + lenWidth), size_s s), s')"
proof -
  from assms(3) have "length (data (File s)) + length (b_buf (buf s)) +
      length (PutUint64 (of_nat (length p))) \<le> quota (File s)"
    by (simp add: content_def length_PutUint64 lenWidth_def)
  from bufio_Write_fits[OF assms(1,2) this]
  obtain b1 f1 where w1: "bufio_Write (buf s) (File s) (PutUint64 (of_nat (length p))) =
      (length (PutUint64 (of_nat (length p))), None, b1, f1)" by blast
  note p1 = bufio_Write_props[OF w1]
  from p1(1) have "length (data f1 @ b_buf b1) = length (content s) + 8"
    by (simp add: content_def length_PutUint64)
  with assms(3) p1(7) have "length (data f1) + length (b_buf b1) + length p \<le> quota f1"
    by (simp add: lenWidth_def)
  from bufio_Write_fits[OF _ _ this] p1(4,6) assms(2)
  obtain b2 f2 where w2: "bufio_Write b1 f1 p = (length p, None, b2, f2)" by auto
  from w1 w2 show ?thesis by (simp add: Append_def binary_Write_def Let_def)
qed

text \<open>A flush succeeds whenever the disk has room for what the store holds.\<close>

lemma flush_fits:
  assumes "b_err (buf s) = None" and "\<not> closed (File s)"
    and "length (content s) \<le> quota (File s)"
  shows "fst (flush s) = None"
proof -
  from assms(3) have "length (data (File s)) + length (b_buf (buf s)) \<le> quota (File s)"
    by (simp add: content_def)
  from bufio_Flush_fits[OF assms(1,2) this] show ?thesis
    by (cases "bufio_Flush (buf s) (File s)") (simp add: flush_def)
qed

subsection \<open>Positional reads\<close>

lemma sint_of_nat_small:
  assumes "k < 2 ^ 63"
  shows "sint (of_nat k :: uint64) = int k"
proof -
  have "sint (of_nat k :: uint64) = signed_take_bit 63 (int k)"
    by (simp add: signed_of_nat)
  also from assms have "\<dots> = int k"
    by (intro signed_take_bit_int_eq_self) simp_all
  finally show ?thesis .
qed

lemma unat_of_nat_small:
  assumes "k < 2 ^ 64"
  shows "unat (of_nat k :: uint64) = k"
  using assms by (simp add: unat_of_nat)

lemma file_ReadAt_exact:
  assumes "data f = pre @ bs @ post" and "length b = length bs" and "\<not> closed f \<or> bs = []"
  shows "file_ReadAt f b (int (length pre)) = (bs, length bs, None)"
  using assms by (auto simp: file_ReadAt_def Let_def)

lemma file_ReadAt_length:
  "file_ReadAt f b off = (b', k, e) \<Longrightarrow> length b' = length b"
  by (auto simp: file_ReadAt_def Let_def split: if_splits)

lemma Read_record:
  assumes fl: "flush s = (None, s1)" and op: "\<not> closed (File s1)"
    and d: "data (File s1) = pre @ PutUint64 (of_nat (length p)) @ p @ post"
    and pre: "length pre + lenWidth < 2 ^ 63" and p: "length p \<le> maxAlloc"
    and mem: "length p \<le> memory (File s1)"
  shows "Read s (of_nat (length pre)) = (Ok p, s1)"
proof -
  from pre have s1: "sint (of_nat (length pre) :: uint64) = int (length pre)"
    by (intro sint_of_nat_small) simp
  have "(of_nat (length pre) :: uint64) + of_nat lenWidth = of_nat (length pre + lenWidth)"
    by simp
  with pre have s2: "sint ((of_nat (length pre) :: uint64) + of_nat lenWidth) = int (length pre + lenWidth)"
    by (simp only: sint_of_nat_small)
  from d have d1: "data (File s1) = pre @ PutUint64 (of_nat (length p)) @ (p @ post)" by simp
  from file_ReadAt_exact[OF d1, of "replicate lenWidth 0"] op
  have r1: "file_ReadAt (File s1) (replicate lenWidth 0) (int (length pre)) =
              (PutUint64 (of_nat (length p)), lenWidth, None)"
    by (simp add: length_PutUint64 lenWidth_def)
  from p have "length p < 2 ^ 64" by (simp add: maxAlloc_def)
  then have u: "unat (of_nat (length p) :: uint64) = length p" by (rule unat_of_nat_small)
  from p mem have mp: "make_bytes (memory (File s1)) (length p) = Allocated (replicate (length p) 0)"
    by (simp add: make_bytes_def)
  from d have d2: "data (File s1) = (pre @ PutUint64 (of_nat (length p))) @ p @ post" by simp
  from file_ReadAt_exact[OF d2, of "replicate (length p) 0"] op
  have r2: "file_ReadAt (File s1) (replicate (length p) 0) (int (length pre + lenWidth)) =
              (p, length p, None)"
    by (simp add: length_PutUint64 lenWidth_def)
  show ?thesis
    unfolding Read_def fl
    by (simp add: s1 s2 r1 r2 Uint64_PutUint64 u mp del: of_nat_add)
qed


lemma Read_state: "snd (Read s pos) = snd (flush s)"
  by (simp add: Read_def split: prod.splits option.splits alloc.splits)

lemma ReadAt_state: "snd (ReadAt s b off) = snd (flush s)"
  by (simp add: ReadAt_def split: prod.splits option.splits)

lemma Read_flush_error: "flush s = (Some er, s1) \<Longrightarrow> Read s pos = (Err er, s1)"
  by (simp add: Read_def)

lemma ReadAt_flush_error: "flush s = (Some er, s1) \<Longrightarrow> ReadAt s b off = ((b, 0, Some er), s1)"
  by (simp add: ReadAt_def)

subsection \<open>Signed offsets\<close>

lemma sint_unat_small:
  fixes w :: uint64
  assumes "unat w < 2 ^ 63"
  shows "sint w = int (unat w)"
  using sint_of_nat_small[OF assms] by simp

lemma sint_nonneg_unat:
  fixes w :: uint64
  assumes "0 \<le> sint w"
  shows "unat w < 2 ^ 63"
proof -
  from assms have nb: "\<not> bit (uint w) 63" by (simp add: sint_uint)
  then have c: "of_bool (bit (uint w) 63) = (0 :: int)" by simp
  have "uint w < 2 ^ 64" using uint_bounded[of w] by simp
  then have a: "take_bit (Suc 63) (uint w) = uint w" by (intro take_bit_int_eq_self) simp_all
  have b: "take_bit (Suc 63) (uint w) = 2 ^ 63 * of_bool (bit (uint w) 63) + take_bit 63 (uint w)"
    by (rule take_bit_Suc_from_most)
  note d = trans[OF a[symmetric] b, unfolded c]
  have e: "take_bit 63 (uint w) < 2 ^ 63" by (rule take_bit_int_less_exp)
  have f: "2 ^ 63 * 0 + take_bit 63 (uint w) = take_bit 63 (uint w)" by simp
  note g = trans[OF f[symmetric] d[symmetric]]
  note h = e[unfolded g]
  have "nat (uint w) < 2 ^ 63 \<longleftrightarrow> uint w < 2 ^ 63"
    by (rule nat_less_numeral_power_cancel_iff)
  with h show ?thesis by (simp only: unat_eq_nat_uint)
qed

lemma nat_sint_nonneg:
  fixes w :: uint64
  assumes "0 \<le> sint w"
  shows "nat (sint w) = unat w"
  using sint_unat_small[OF sint_nonneg_unat[OF assms]] by simp

lemma unat_plus_lenWidth:
  fixes pos :: uint64
  assumes "unat pos < 2 ^ 63"
  shows "unat (pos + of_nat lenWidth) = unat pos + lenWidth"
proof -
  have "unat (pos + of_nat lenWidth) = (unat pos + lenWidth) mod 2 ^ 64"
    by (simp add: unat_word_ariths lenWidth_def)
  with assms show ?thesis by (simp add: lenWidth_def)
qed

subsection \<open>Reads that fail\<close>

lemma file_ReadAt_prefix_fails:
  assumes "sint pos < 0 \<or> closed f \<or> length (data f) < unat pos + lenWidth"
  shows "\<exists>b' k e. file_ReadAt f (replicate lenWidth 0) (sint (pos :: uint64)) = (b', k, Some e)"
proof (cases "sint pos < 0 \<or> closed f")
  case True
  then show ?thesis by (auto simp: file_ReadAt_def lenWidth_def)
next
  case False
  then have nn: "nat (sint pos) = unat pos" by (intro nat_sint_nonneg) simp
  from False assms have "length (data f) < unat pos + lenWidth" by blast
  then have "length (take 8 (drop (unat pos) (data f))) < 8" by (simp add: lenWidth_def)
  with False nn show ?thesis by (simp add: file_ReadAt_def Let_def lenWidth_def)
qed

lemma file_ReadAt_prefix_ok:
  assumes "0 \<le> sint pos" and "\<not> closed f" and "unat pos + lenWidth \<le> length (data f)"
  shows "file_ReadAt f (replicate lenWidth 0) (sint (pos :: uint64)) =
           (take lenWidth (drop (unat pos) (data f)), lenWidth, None)"
proof -
  from assms(1) have nn: "nat (sint pos) = unat pos" by (rule nat_sint_nonneg)
  from assms(3) have "length (take 8 (drop (unat pos) (data f))) = 8" by (simp add: lenWidth_def)
  with assms(1,2) nn show ?thesis by (simp add: file_ReadAt_def Let_def lenWidth_def)
qed

lemma file_ReadAt_payload_short:
  assumes "0 \<le> sint pos" and "length (data f) - (unat pos + lenWidth) < k"
  shows "\<exists>b' m e. file_ReadAt f (replicate k 0) (sint ((pos :: uint64) + of_nat lenWidth)) = (b', m, Some e)"
proof (cases "sint (pos + of_nat lenWidth) < 0 \<or> closed f")
  case True
  with assms(2) show ?thesis by (auto simp: file_ReadAt_def)
next
  case False
  then have "nat (sint (pos + of_nat lenWidth)) = unat (pos + of_nat lenWidth)"
    by (intro nat_sint_nonneg) simp
  also have "\<dots> = unat pos + lenWidth"
    by (rule unat_plus_lenWidth) (rule sint_nonneg_unat[OF assms(1)])
  finally have nn: "nat (sint (pos + of_nat lenWidth)) = unat pos + lenWidth" .
  from assms(2) have "length (take k (drop (unat pos + lenWidth) (data f))) < k" by simp
  with False nn assms(2) show ?thesis by (simp add: file_ReadAt_def Let_def)
qed

subsection \<open>A flush is idempotent\<close>








subsection \<open>Round trip while \<open>size\<close> is the end of the content\<close>

lemma Read_at_returned_position:
  assumes ap: "Append s p = (Inr (n, pos), s')" and sz: "size_s s = of_nat (length (content s))"
    and fl: "flush s' = (None, s1)"
    and len: "length (content s) + lenWidth < 2 ^ 63" and p: "length p \<le> maxAlloc"
    and mem: "length p \<le> memory (File s)"
  shows "Read s' pos = (Ok p, s1)"
proof -
  from mem flush_props(10)[OF fl] Append_Inr(10)[OF ap]
  have mem': "length p \<le> memory (File s1)" by simp
  from Append_Inr(2)[OF ap] sz have pos: "pos = of_nat (length (content s))" by simp
  from flush_props(6)[OF fl] Append_Inr(4)[OF ap]
  have d: "data (File s1) = content s @ PutUint64 (of_nat (length p)) @ p @ []" by simp
  from flush_ok_open[OF fl Append_open[OF ap]] have op: "\<not> closed (File s1)" .
  from Read_record[OF fl op d len p mem'] show ?thesis by (simp only: pos)
qed



section \<open>The claims\<close>

text \<open>
  C1. The claim: after every successful \<open>Append(p)\<close> the field \<open>size\<close> is the size
  before the call plus \<open>lenWidth + len(p)\<close>, the logical end of the file. The code
  assigns \<open>s.size = n\<close>, the byte count of the one record. On a new store over an
  empty file, \<open>Append("a")\<close> then \<open>Append("b")\<close> leaves \<open>size = 9\<close>, while the size
  before the second call plus \<open>lenWidth + 1\<close> is 18, and the store holds 18 bytes.
\<close>

theorem size_overwritten_not_advanced:
  "newStore empty_file = Inr fresh \<and>
   Append fresh [97] = (Inr (9, 0), with_buffer [0, 0, 0, 0, 0, 0, 0, 1, 97] 9) \<and>
   Append (with_buffer [0, 0, 0, 0, 0, 0, 0, 1, 97] 9) [98] =
     (Inr (9, 9), with_buffer [0, 0, 0, 0, 0, 0, 0, 1, 97, 0, 0, 0, 0, 0, 0, 0, 1, 98] 9) \<and>
   size_s (with_buffer [0, 0, 0, 0, 0, 0, 0, 1, 97, 0, 0, 0, 0, 0, 0, 0, 1, 98] 9) = 9 \<and>
   size_s (with_buffer [0, 0, 0, 0, 0, 0, 0, 1, 97] 9) + of_nat (lenWidth + length [98 :: byte]) = 18 \<and>
   length (content (with_buffer [0, 0, 0, 0, 0, 0, 0, 1, 97, 0, 0, 0, 0, 0, 0, 0, 1, 98] 9)) = 18"
  using newStore_empty_file Append_a Append_ab
  by (simp add: example_defs content_def NewWriter_def lenWidth_def)

text \<open>
  C2. The claim: on a store over an empty file, \<open>Read\<close> at the position returned by the
  i-th \<open>Append\<close> returns the i-th record. Appending \<open>"a"\<close>, \<open>"b"\<close>, \<open>"c"\<close> returns the
  positions 0, 9 and 9: the third record is given the position of the second, and
  \<open>Read(9)\<close> returns \<open>"b"\<close>, not \<open>"c"\<close>.
\<close>

theorem third_record_reads_back_second:
  "newStore empty_file = Inr fresh \<and>
   fst (Append_all fresh [[97], [98], [99]]) = Inr [(9, 0), (9, 9), (9, 9)] \<and>
   fst (Read (snd (Append_all fresh [[97], [98], [99]])) 9) = Ok [98]"
  unfolding Append_all_abc by (simp add: Read_abc_9 newStore_empty_file)

text \<open>
  C3. The claim: each \<open>Append\<close> of a serialized sequence observes a \<open>size\<close> strictly
  greater than the one before it. Appending \<open>"ab"\<close>, \<open>"c"\<close>, \<open>"d"\<close> to a new store,
  the calls observe the sizes 0, 10 and 9 (the positions they return): the third
  observes a smaller size than the second.
\<close>

theorem observed_size_goes_down:
  "newStore empty_file = Inr fresh \<and>
   fst (Append_all fresh [[97, 98], [99], [100]]) = Inr [(10, 0), (9, 10), (9, 9)]"
proof -
  have 1: "Append fresh [97, 98] = (Inr (10, 0), with_buffer [0, 0, 0, 0, 0, 0, 0, 2, 97, 98] 10)"
    by (simp add: model_defs example_defs)
  have 2: "Append (with_buffer [0, 0, 0, 0, 0, 0, 0, 2, 97, 98] 10) [99] =
     (Inr (9, 10), with_buffer [0, 0, 0, 0, 0, 0, 0, 2, 97, 98, 0, 0, 0, 0, 0, 0, 0, 1, 99] 9)"
    by (simp add: model_defs example_defs)
  have 3: "Append (with_buffer [0, 0, 0, 0, 0, 0, 0, 2, 97, 98, 0, 0, 0, 0, 0, 0, 0, 1, 99] 9) [100] =
     (Inr (9, 9), with_buffer [0, 0, 0, 0, 0, 0, 0, 2, 97, 98, 0, 0, 0, 0, 0, 0, 0, 1, 99,
                               0, 0, 0, 0, 0, 0, 0, 1, 100] 9)"
    by (simp add: model_defs example_defs)
  show ?thesis by (simp add: 1 2 3 newStore_empty_file)
qed

text \<open>
  C4. A successful \<open>Append(p)\<close> returns \<open>n = lenWidth + len(p)\<close> and the store's
  \<open>size\<close> at the start of the call as position, and what it hands to the buffered
  writer is the eight-byte big-endian encoding of \<open>len(p)\<close> followed by \<open>p\<close>: the
  content of the store (file plus buffer) grows by exactly those bytes, the first eight
  of which, read with the most significant byte first, are the number \<open>len(p)\<close>.
\<close>

theorem Append_result:
  assumes "Append s p = (Inr (n, pos), s')"
  shows "n = of_nat (lenWidth + length p) \<and> pos = size_s s \<and>
         content s' = content s @ PutUint64 (of_nat (length p)) @ p \<and>
         length (PutUint64 (of_nat (length p))) = lenWidth \<and>
         (length p < 2 ^ 63 \<longrightarrow>
            unat n = lenWidth + length p \<and>
            be_value (PutUint64 (of_nat (length p))) = length p)"
proof -
  note a = Append_Inr[OF assms]
  have l: "length (PutUint64 (of_nat (length p))) = lenWidth"
    by (simp add: length_PutUint64 lenWidth_def)
  have "length p < 2 ^ 63 \<longrightarrow>
          unat n = lenWidth + length p \<and> be_value (PutUint64 (of_nat (length p))) = length p"
  proof
    assume b: "length p < 2 ^ 63"
    then have "length p + lenWidth < 2 ^ 64" by (simp add: lenWidth_def)
    with unat_of_nat[of "length p + lenWidth", where 'a = 64]
    have "unat (of_nat (length p + lenWidth) :: uint64) = length p + lenWidth"
      by (simp del: of_nat_add)
    then have 1: "unat n = lenWidth + length p"
      unfolding a(1) by (simp only: add.commute)
    from b have "length p < 2 ^ 64" by simp
    then have 2: "be_value (PutUint64 (of_nat (length p))) = length p"
      by (simp add: be_value_PutUint64 unat_of_nat_small)
    from 1 2 show "unat n = lenWidth + length p \<and>
                   be_value (PutUint64 (of_nat (length p))) = length p" ..
  qed
  with a(1,2,4) l show ?thesis by (simp add: add.commute)
qed

theorem Append_result_witness:
  "Append fresh [104, 105] =
     (Inr (10, 0), fresh\<lparr>buf := NewWriter\<lparr>b_buf := [0, 0, 0, 0, 0, 0, 0, 2, 104, 105]\<rparr>, size_s := 10\<rparr>) \<and>
   (10 :: uint64) = of_nat (lenWidth + length [104 :: byte, 105]) \<and> (0 :: uint64) = size_s fresh \<and>
   content (fresh\<lparr>buf := NewWriter\<lparr>b_buf := [0, 0, 0, 0, 0, 0, 0, 2, 104, 105]\<rparr>, size_s := 10\<rparr>) =
     content fresh @ PutUint64 (of_nat (length [104 :: byte, 105])) @ [104, 105]"
proof -
  have e: "Append fresh [104, 105] =
     (Inr (10, 0), fresh\<lparr>buf := NewWriter\<lparr>b_buf := [0, 0, 0, 0, 0, 0, 0, 2, 104, 105]\<rparr>, size_s := 10\<rparr>)"
    by (simp add: model_defs empty_file_def fresh_def)
  from Append_result[OF e] e show ?thesis by simp
qed

text \<open>
  C5. \<open>Read\<close> and \<open>ReadAt\<close> flush the buffered writer before they read: the store
  after either call is the store after the flush, and when the flush fails they return
  its error. After a completed \<open>Append\<close>, on an open file with room on the disk for what
  the store holds, the flush succeeds: the file then holds everything appended, and
  \<open>Read\<close> and \<open>ReadAt\<close> at the offset where the \<open>Append\<close> put its record return that
  record, although \<open>Append\<close> itself may have left it in the buffer.
\<close>

theorem read_path_flushes_first:
  assumes ap: "Append s p = (Inr (n, pos), s')" and fl: "flush s' = (e, s1)"
    and len: "length (content s) + lenWidth < 2 ^ 63" and p: "length p \<le> maxAlloc"
    and mem: "length p \<le> memory (File s)"
    and b: "length b = lenWidth + length p"
  shows "snd (Read s' q) = s1 \<and> snd (ReadAt s' c off) = s1 \<and>
         (\<forall>er. e = Some er \<longrightarrow> fst (Read s' q) = Err er \<and> fst (ReadAt s' c off) = (c, 0, Some er)) \<and>
         (e = None \<longrightarrow>
            data (File s1) = content s @ PutUint64 (of_nat (length p)) @ p \<and>
            b_buf (buf s1) = [] \<and>
            fst (Read s' (of_nat (length (content s)))) = Ok p \<and>
            fst (ReadAt s' b (int (length (content s)))) =
              (PutUint64 (of_nat (length p)) @ p, lenWidth + length p, None)) \<and>
         (\<not> closed (File s') \<and> length (content s') \<le> quota (File s') \<longrightarrow>
            e = None \<and>
            data (File s1) = content s @ PutUint64 (of_nat (length p)) @ p \<and>
            fst (Read s' (of_nat (length (content s)))) = Ok p \<and>
            fst (ReadAt s' b (int (length (content s)))) =
              (PutUint64 (of_nat (length p)) @ p, lenWidth + length p, None))"
proof -
  have st: "snd (Read s' q) = s1" "snd (ReadAt s' c off) = s1"
    using fl by (simp_all add: Read_state ReadAt_state)
  have er: "\<forall>er. e = Some er \<longrightarrow> fst (Read s' q) = Err er \<and> fst (ReadAt s' c off) = (c, 0, Some er)"
    using fl by (auto simp: Read_flush_error ReadAt_flush_error)
  have ok: "e = None \<longrightarrow>
            data (File s1) = content s @ PutUint64 (of_nat (length p)) @ p \<and>
            b_buf (buf s1) = [] \<and>
            fst (Read s' (of_nat (length (content s)))) = Ok p \<and>
            fst (ReadAt s' b (int (length (content s)))) =
              (PutUint64 (of_nat (length p)) @ p, lenWidth + length p, None)"
  proof
    assume e: "e = None"
    with fl have fl': "flush s' = (None, s1)" by simp
    note fp = flush_props[OF fl']
    from fp(6) Append_Inr(4)[OF ap]
    have d: "data (File s1) = content s @ PutUint64 (of_nat (length p)) @ p" by simp
    from flush_ok_open[OF fl' Append_open[OF ap]] have op: "\<not> closed (File s1)" .
    from mem fp(10) Append_Inr(10)[OF ap] have mem': "length p \<le> memory (File s1)" by simp
    from d have d': "data (File s1) = content s @ PutUint64 (of_nat (length p)) @ p @ []" by simp
    from Read_record[OF fl' op d' len p mem']
    have r: "fst (Read s' (of_nat (length (content s)))) = Ok p" by simp
    from d have d2: "data (File s1) = content s @ (PutUint64 (of_nat (length p)) @ p) @ []" by simp
    from file_ReadAt_exact[OF d2, of b] op b
    have "file_ReadAt (File s1) b (int (length (content s))) =
            (PutUint64 (of_nat (length p)) @ p, lenWidth + length p, None)"
      by (simp add: length_PutUint64 lenWidth_def)
    with fl' have ra: "fst (ReadAt s' b (int (length (content s)))) =
              (PutUint64 (of_nat (length p)) @ p, lenWidth + length p, None)"
      by (simp add: ReadAt_def)
    from d fp(5) r ra show "data (File s1) = content s @ PutUint64 (of_nat (length p)) @ p \<and>
            b_buf (buf s1) = [] \<and>
            fst (Read s' (of_nat (length (content s)))) = Ok p \<and>
            fst (ReadAt s' b (int (length (content s)))) =
              (PutUint64 (of_nat (length p)) @ p, lenWidth + length p, None)"
      by simp
  qed
  have room: "\<not> closed (File s') \<and> length (content s') \<le> quota (File s') \<longrightarrow> e = None"
  proof
    assume "\<not> closed (File s') \<and> length (content s') \<le> quota (File s')"
    then have "fst (flush s') = None"
      using flush_fits[OF Append_Inr(5)[OF ap]] by blast
    with fl show "e = None" by simp
  qed
  from st er ok room show ?thesis by blast
qed

theorem read_path_flushes_first_witness:
  "Append fresh [104, 105] = (Inr (10, 0), hi_buffered) \<and> data (File hi_buffered) = [] \<and>
   \<not> closed (File hi_buffered) \<and> length (content hi_buffered) \<le> quota (File hi_buffered) \<and>
   flush hi_buffered = (None, hi_flushed) \<and>
   Read hi_buffered 0 = (Ok [104, 105], hi_flushed) \<and>
   ReadAt hi_buffered (replicate 10 0) 0 = (([0, 0, 0, 0, 0, 0, 0, 2, 104, 105], 10, None), hi_flushed) \<and>
   data (File hi_flushed) = [0, 0, 0, 0, 0, 0, 0, 2, 104, 105]"
proof -
  have len: "length (content fresh) + lenWidth < 2 ^ 63"
    by (simp add: content_def fresh_def empty_file_def NewWriter_def lenWidth_def)
  have p: "length [104 :: byte, 105] \<le> maxAlloc" by (simp add: maxAlloc_def)
  have mem: "length [104 :: byte, 105] \<le> memory (File fresh)"
    by (simp add: fresh_def empty_file_def)
  have b: "length (replicate 10 (0 :: byte)) = lenWidth + length [104 :: byte, 105]"
    by (simp add: lenWidth_def)
  have c: "content fresh = []" by (simp add: content_def fresh_def empty_file_def NewWriter_def)
  have o: "\<not> closed (File hi_buffered)"
    and q: "length (content hi_buffered) \<le> quota (File hi_buffered)"
    by (simp_all add: content_def hi_buffered_def fresh_def empty_file_def NewWriter_def)
  from read_path_flushes_first[OF Append_fresh_hi flush_hi_buffered len p mem b, of 0 "replicate 10 0" 0] o q
  have "snd (Read hi_buffered 0) = hi_flushed \<and> snd (ReadAt hi_buffered (replicate 10 0) 0) = hi_flushed \<and>
        fst (Read hi_buffered 0) = Ok [104, 105] \<and>
        fst (ReadAt hi_buffered (replicate 10 0) 0) = ([0, 0, 0, 0, 0, 0, 0, 2, 104, 105], 10, None)"
    by (simp add: c PutUint64_def lenWidth_def)
  then have "Read hi_buffered 0 = (Ok [104, 105], hi_flushed)"
    and "ReadAt hi_buffered (replicate 10 0) 0 = (([0, 0, 0, 0, 0, 0, 0, 2, 104, 105], 10, None), hi_flushed)"
    by (simp_all add: prod_eq_iff)
  with Append_fresh_hi flush_hi_buffered o q show ?thesis
    by (simp add: hi_buffered_def hi_flushed_def fresh_def empty_file_def)
qed

text \<open>
  C6. The claim: \<open>Read(pos)\<close> returns an error for every \<open>pos\<close> at or beyond the
  flushed end of the file, and also when the length prefix at \<open>pos\<close> announces more
  bytes than remain. The second half fails as stated: \<open>make([]byte, n)\<close> runs before
  the payload is read and does not return when it cannot give \<open>n\<close> bytes. After
  \<open>Append\<close> of eight bytes \<open>0xFF\<close>, position 8 lies before the end of the file and holds
  the prefix \<open>2^64 - 1\<close>; \<open>Read(8)\<close> panics and returns no error.
\<close>

theorem Read_panics_on_huge_prefix:
  "Append fresh [255, 255, 255, 255, 255, 255, 255, 255] =
     (Inr (16, 0), with_buffer [0, 0, 0, 0, 0, 0, 0, 8, 255, 255, 255, 255, 255, 255, 255, 255] 16) \<and>
   Uint64 [255, 255, 255, 255, 255, 255, 255, 255] = Some 18446744073709551615 \<and>
   Read (with_buffer [0, 0, 0, 0, 0, 0, 0, 8, 255, 255, 255, 255, 255, 255, 255, 255] 16) 8 =
     (Panic, on_disk [0, 0, 0, 0, 0, 0, 0, 8, 255, 255, 255, 255, 255, 255, 255, 255] 16)"
proof -
  have 1: "Append fresh [255, 255, 255, 255, 255, 255, 255, 255] =
     (Inr (16, 0), with_buffer [0, 0, 0, 0, 0, 0, 0, 8, 255, 255, 255, 255, 255, 255, 255, 255] 16)"
    by (simp add: model_defs example_defs)
  have 2: "Uint64 [255, 255, 255, 255, 255, 255, 255, 255] = Some 18446744073709551615"
    by (simp add: Uint64_def)
  have 3: "Read (with_buffer [0, 0, 0, 0, 0, 0, 0, 8, 255, 255, 255, 255, 255, 255, 255, 255] 16) 8 =
     (Panic, on_disk [0, 0, 0, 0, 0, 0, 0, 8, 255, 255, 255, 255, 255, 255, 255, 255] 16)"
    by (simp add: model_defs example_defs)
  from 1 2 3 show ?thesis by (simp only: simp_thms)
qed

text \<open>
  The same with a prefix that \<open>make\<close> accepts and the machine cannot give: the prefix
  \<open>2^40\<close> on a machine with 65536 bytes ends the process.
\<close>

lemma Read_dies_on_large_prefix:
  "Append fresh [0, 0, 1, 0, 0, 0, 0, 0] =
     (Inr (16, 0), with_buffer [0, 0, 0, 0, 0, 0, 0, 8, 0, 0, 1, 0, 0, 0, 0, 0] 16) \<and>
   Uint64 [0, 0, 1, 0, 0, 0, 0, 0] = Some 1099511627776 \<and>
   Read (with_buffer [0, 0, 0, 0, 0, 0, 0, 8, 0, 0, 1, 0, 0, 0, 0, 0] 16) 8 =
     (Fatal, on_disk [0, 0, 0, 0, 0, 0, 0, 8, 0, 0, 1, 0, 0, 0, 0, 0] 16)"
proof -
  have 1: "Append fresh [0, 0, 1, 0, 0, 0, 0, 0] =
     (Inr (16, 0), with_buffer [0, 0, 0, 0, 0, 0, 0, 8, 0, 0, 1, 0, 0, 0, 0, 0] 16)"
    by (simp add: model_defs example_defs)
  have 2: "Uint64 [0, 0, 1, 0, 0, 0, 0, 0] = Some 1099511627776"
    by (simp add: Uint64_def)
  have 3: "Read (with_buffer [0, 0, 0, 0, 0, 0, 0, 8, 0, 0, 1, 0, 0, 0, 0, 0] 16) 8 =
     (Fatal, on_disk [0, 0, 0, 0, 0, 0, 0, 8, 0, 0, 1, 0, 0, 0, 0, 0] 16)"
    by (simp add: model_defs example_defs)
  from 1 2 3 show ?thesis by (simp only: simp_thms)
qed

text \<open>
  C6, as the code has it. \<open>Read(pos)\<close> returns an error for every \<open>pos\<close> at or beyond
  the flushed end of the file. When the prefix at \<open>pos\<close> announces more bytes than
  remain, \<open>Read\<close> never returns data. It returns an error when \<open>make\<close> can give the
  bytes, that is when the prefix is at most \<open>maxAlloc\<close> and at most what the machine
  can allocate. Otherwise, unless the flush or the read of the prefix has failed already,
  it does not return: it panics on a prefix above \<open>maxAlloc\<close>, and the process ends on a
  prefix within \<open>maxAlloc\<close> that the machine cannot give.
\<close>

theorem Read_out_of_range_or_short:
  assumes "Read s pos = (r, s')"
  shows "(length (data (File s')) \<le> unat pos \<longrightarrow> (\<exists>e. r = Err e)) \<and>
         (\<forall>n. unat pos + lenWidth \<le> length (data (File s')) \<and>
              Uint64 (take lenWidth (drop (unat pos) (data (File s')))) = Some n \<and>
              length (data (File s')) - (unat pos + lenWidth) < unat n
              \<longrightarrow> (\<forall>b. r \<noteq> Ok b) \<and>
                  (unat n \<le> maxAlloc \<and> unat n \<le> memory (File s') \<longrightarrow> (\<exists>e. r = Err e)) \<and>
                  (fst (flush s) = None \<and> 0 \<le> sint pos \<and> \<not> closed (File s') \<longrightarrow>
                     (maxAlloc < unat n \<longrightarrow> r = Panic) \<and>
                     (unat n \<le> maxAlloc \<and> memory (File s') < unat n \<longrightarrow> r = Fatal)))"
proof -
  obtain e s1 where fl: "flush s = (e, s1)" by (cases "flush s") auto
  from assms have s': "s' = s1" using Read_state[of s pos] fl by simp
  show ?thesis
  proof (cases e)
    case (Some er)
    with fl assms have "r = Err er" by (simp add: Read_flush_error)
    with fl Some show ?thesis by simp
  next
    case None
    with fl have fl': "flush s = (None, s1)" by simp
    have 1: "length (data (File s')) \<le> unat pos \<longrightarrow> (\<exists>e. r = Err e)"
    proof
      assume "length (data (File s')) \<le> unat pos"
      then have "length (data (File s1)) < unat pos + lenWidth" by (simp add: s' lenWidth_def)
      with file_ReadAt_prefix_fails[of pos "File s1"]
      obtain b' k e1 where "file_ReadAt (File s1) (replicate lenWidth 0) (sint pos) = (b', k, Some e1)"
        by blast
      with assms fl' have "r = Err e1" by (simp add: Read_def)
      then show "\<exists>e. r = Err e" by simp
    qed
    have 2: "\<forall>n. unat pos + lenWidth \<le> length (data (File s')) \<and>
              Uint64 (take lenWidth (drop (unat pos) (data (File s')))) = Some n \<and>
              length (data (File s')) - (unat pos + lenWidth) < unat n
              \<longrightarrow> (\<forall>b. r \<noteq> Ok b) \<and>
                  (unat n \<le> maxAlloc \<and> unat n \<le> memory (File s') \<longrightarrow> (\<exists>e. r = Err e)) \<and>
                  (fst (flush s) = None \<and> 0 \<le> sint pos \<and> \<not> closed (File s') \<longrightarrow>
                     (maxAlloc < unat n \<longrightarrow> r = Panic) \<and>
                     (unat n \<le> maxAlloc \<and> memory (File s') < unat n \<longrightarrow> r = Fatal))"
    proof (intro allI impI, elim conjE)
      fix n
      assume a: "unat pos + lenWidth \<le> length (data (File s'))"
        and u: "Uint64 (take lenWidth (drop (unat pos) (data (File s')))) = Some n"
        and sh: "length (data (File s')) - (unat pos + lenWidth) < unat n"
      show "(\<forall>b. r \<noteq> Ok b) \<and>
            (unat n \<le> maxAlloc \<and> unat n \<le> memory (File s') \<longrightarrow> (\<exists>e. r = Err e)) \<and>
            (fst (flush s) = None \<and> 0 \<le> sint pos \<and> \<not> closed (File s') \<longrightarrow>
               (maxAlloc < unat n \<longrightarrow> r = Panic) \<and>
               (unat n \<le> maxAlloc \<and> memory (File s') < unat n \<longrightarrow> r = Fatal))"
      proof (cases "sint pos < 0 \<or> closed (File s1)")
        case True
        with file_ReadAt_prefix_fails[of pos "File s1"]
        obtain b' k e1 where "file_ReadAt (File s1) (replicate lenWidth 0) (sint pos) = (b', k, Some e1)"
          by blast
        with assms fl' have "r = Err e1" by (simp add: Read_def)
        with True s' show ?thesis by auto
      next
        case False
        then have nn: "0 \<le> sint pos" and op: "\<not> closed (File s1)" by simp_all
        from file_ReadAt_prefix_ok[OF nn op a[unfolded s']]
        have r1: "file_ReadAt (File s1) (replicate lenWidth 0) (sint pos) =
                    (take lenWidth (drop (unat pos) (data (File s1))), lenWidth, None)" .
        consider (big) "maxAlloc < unat n"
          | (oom) "unat n \<le> maxAlloc" "memory (File s1) < unat n"
          | (fits) "unat n \<le> maxAlloc" "unat n \<le> memory (File s1)"
          by linarith
        then show ?thesis
        proof cases
          case big
          then have mk: "make_bytes (memory (File s1)) (unat n) = LenOutOfRange"
            by (simp add: make_bytes_def)
          with assms fl' r1 u have "r = Panic" by (simp add: Read_def s')
          with big s' show ?thesis by simp
        next
          case oom
          then have mk: "make_bytes (memory (File s1)) (unat n) = OutOfMemory"
            by (simp add: make_bytes_def)
          with assms fl' r1 u have "r = Fatal" by (simp add: Read_def s')
          with oom s' show ?thesis by simp
        next
          case fits
          then have mk: "make_bytes (memory (File s1)) (unat n) = Allocated (replicate (unat n) 0)"
            by (simp add: make_bytes_def)
          from file_ReadAt_payload_short[OF nn sh[unfolded s']]
          obtain b' m e2 where
            "file_ReadAt (File s1) (replicate (unat n) 0) (sint (pos + of_nat lenWidth)) = (b', m, Some e2)"
            by blast
          with assms fl' r1 u mk have "r = Err e2"
            by (simp add: Read_def s' del: of_nat_add)
          with fits s' show ?thesis by simp
        qed
      qed
    qed
    from 1 2 show ?thesis by blast
  qed
qed

theorem Read_out_of_range_or_short_witness:
  "Read short_store 10 = (Err EOF, short_store) \<and>
   length (data (File short_store)) \<le> unat (10 :: uint64) \<and>
   (\<exists>e. Err EOF = (Err e :: byte list outcome)) \<and>
   Read short_store 0 = (Err EOF, short_store) \<and>
   unat (0 :: uint64) + lenWidth \<le> length (data (File short_store)) \<and>
   Uint64 (take lenWidth (drop (unat (0 :: uint64)) (data (File short_store)))) = Some 5 \<and>
   length (data (File short_store)) - (unat (0 :: uint64) + lenWidth) < unat (5 :: uint64) \<and>
   unat (5 :: uint64) \<le> maxAlloc \<and> unat (5 :: uint64) \<le> memory (File short_store) \<and>
   (\<forall>b. Err EOF \<noteq> Ok (b :: byte list))"
proof -
  have r10: "Read short_store 10 = (Err EOF, short_store)"
    by (simp add: model_defs example_defs2)
  have r0: "Read short_store 0 = (Err EOF, short_store)"
    by (simp add: model_defs example_defs2)
  have h1: "length (data (File short_store)) \<le> unat (10 :: uint64)"
    by (simp add: example_defs2)
  have h2: "unat (0 :: uint64) + lenWidth \<le> length (data (File short_store))"
    "Uint64 (take lenWidth (drop (unat (0 :: uint64)) (data (File short_store)))) = Some 5"
    "length (data (File short_store)) - (unat (0 :: uint64) + lenWidth) < unat (5 :: uint64)"
    "unat (5 :: uint64) \<le> maxAlloc" "unat (5 :: uint64) \<le> memory (File short_store)"
    by (simp_all add: example_defs2 lenWidth_def Uint64_def maxAlloc_def)
  from Read_out_of_range_or_short[OF r10] h1
  have c1: "\<exists>e. Err EOF = (Err e :: byte list outcome)" by blast
  from Read_out_of_range_or_short[OF r0] h2
  have c2: "\<forall>b. Err EOF \<noteq> Ok (b :: byte list)" by blast
  from r10 r0 h1 h2 c1 c2 show ?thesis by blast
qed

text \<open>
  C7. Over an existing file of \<open>k\<close> bytes, \<open>newStore\<close> returns a store with
  \<open>size = k\<close> and an empty writer, and every successful first \<open>Append\<close> on it returns
  the position \<open>k\<close>; the first \<open>Append\<close> is successful whenever the file is open and
  the disk has room for the record.
\<close>

theorem newStore_recovers_size:
  assumes "linked f"
  shows "newStore f = Inr \<lparr>File = f, buf = NewWriter, size_s = of_nat (length (data f))\<rparr> \<and>
         (length (data f) < 2 ^ 63 \<longrightarrow> unat (of_nat (length (data f)) :: uint64) = length (data f)) \<and>
         (\<forall>p n pos s'.
            Append \<lparr>File = f, buf = NewWriter, size_s = of_nat (length (data f))\<rparr> p = (Inr (n, pos), s')
            \<longrightarrow> pos = of_nat (length (data f))) \<and>
         (\<forall>p. \<not> closed f \<and> length (data f) + lenWidth + length p \<le> quota f \<longrightarrow>
            (\<exists>s'. Append \<lparr>File = f, buf = NewWriter, size_s = of_nat (length (data f))\<rparr> p =
                    (Inr (of_nat (length p + lenWidth), of_nat (length (data f))), s')))"
proof -
  from assms have 1: "newStore f = Inr \<lparr>File = f, buf = NewWriter, size_s = of_nat (length (data f))\<rparr>"
    by (simp add: newStore_def os_Stat_def)
  have 2: "length (data f) < 2 ^ 63 \<longrightarrow> unat (of_nat (length (data f)) :: uint64) = length (data f)"
    by (simp add: unat_of_nat_small)
  have 3: "\<forall>p n pos s'.
            Append \<lparr>File = f, buf = NewWriter, size_s = of_nat (length (data f))\<rparr> p = (Inr (n, pos), s')
            \<longrightarrow> pos = of_nat (length (data f))"
    using Append_Inr(2) by fastforce
  have 4: "\<forall>p. \<not> closed f \<and> length (data f) + lenWidth + length p \<le> quota f \<longrightarrow>
            (\<exists>s'. Append \<lparr>File = f, buf = NewWriter, size_s = of_nat (length (data f))\<rparr> p =
                    (Inr (of_nat (length p + lenWidth), of_nat (length (data f))), s'))"
  proof (intro allI impI, elim conjE)
    fix p :: "byte list"
    assume op: "\<not> closed f" and q: "length (data f) + lenWidth + length p \<le> quota f"
    let ?s = "\<lparr>File = f, buf = NewWriter, size_s = of_nat (length (data f))\<rparr>"
    from op q have "b_err (buf ?s) = None" "\<not> closed (File ?s)"
      "length (content ?s) + lenWidth + length p \<le> quota (File ?s)"
      by (simp_all add: NewWriter_def content_def)
    from Append_succeeds[OF this]
    show "\<exists>s'. Append ?s p = (Inr (of_nat (length p + lenWidth), of_nat (length (data f))), s')"
      by simp
  qed
  from 1 2 3 4 show ?thesis by blast
qed

theorem newStore_recovers_size_witness:
  "linked abc_file \<and> length (data abc_file) = 3 \<and> \<not> closed abc_file \<and>
   length (data abc_file) + lenWidth + length [104 :: byte, 105] \<le> quota abc_file \<and>
   newStore abc_file = Inr \<lparr>File = abc_file, buf = NewWriter, size_s = 3\<rparr> \<and>
   unat (3 :: uint64) = 3 \<and>
   Append \<lparr>File = abc_file, buf = NewWriter, size_s = 3\<rparr> [104, 105] =
     (Inr (10, 3), \<lparr>File = abc_file,
                     buf = NewWriter\<lparr>b_buf := [0, 0, 0, 0, 0, 0, 0, 2, 104, 105]\<rparr>, size_s = 10\<rparr>)"
proof -
  have l: "linked abc_file" and d: "length (data abc_file) = 3" by (simp_all add: abc_file_def)
  have o: "\<not> closed abc_file"
    and q: "length (data abc_file) + lenWidth + length [104 :: byte, 105] \<le> quota abc_file"
    by (simp_all add: abc_file_def lenWidth_def)
  have a: "Append \<lparr>File = abc_file, buf = NewWriter, size_s = 3\<rparr> [104, 105] =
     (Inr (10, 3), \<lparr>File = abc_file,
                     buf = NewWriter\<lparr>b_buf := [0, 0, 0, 0, 0, 0, 0, 2, 104, 105]\<rparr>, size_s = 10\<rparr>)"
    by (simp add: model_defs abc_file_def)
  from newStore_recovers_size[OF l] d
  have "newStore abc_file = Inr \<lparr>File = abc_file, buf = NewWriter, size_s = 3\<rparr>"
    and "unat (3 :: uint64) = 3"
    by simp_all
  with l d o q a show ?thesis by blast
qed

text \<open>
  C8. \<open>Close\<close> flushes before it closes. When the flush fails, \<open>Close\<close> returns the
  flush's error and leaves the file as open or closed as it was. When the flush succeeds,
  every byte of the store is in the file, the writer is empty and the file is closed; the
  result is \<open>nil\<close> unless the file had been closed before. The flush does succeed, and
  \<open>Close\<close> returns \<open>nil\<close> with every byte on disk and the file closed, whenever the writer
  has no error, the file is open and the disk has room for what the store holds. In all
  cases the content of the store (file plus buffer) is what it was: nothing is lost.
\<close>

theorem Close_flushes_before_closing:
  assumes "flush s = (e, s1)"
  shows "content (snd (Close s)) = content s \<and>
         (\<forall>er. e = Some er \<longrightarrow> Close s = (Some er, s1) \<and> closed (File s1) = closed (File s)) \<and>
         (e = None \<longrightarrow>
            fst (Close s) = (if closed (File s) then Some ErrClosed else None) \<and>
            closed (File (snd (Close s))) \<and>
            data (File (snd (Close s))) = content s \<and> b_buf (buf (snd (Close s))) = []) \<and>
         (b_err (buf s) = None \<and> \<not> closed (File s) \<and> length (content s) \<le> quota (File s) \<longrightarrow>
            e = None \<and> fst (Close s) = None \<and> closed (File (snd (Close s))) \<and>
            data (File (snd (Close s))) = content s \<and> b_buf (buf (snd (Close s))) = [])"
proof -
  have main: "content (snd (Close s)) = content s \<and>
         (\<forall>er. e = Some er \<longrightarrow> Close s = (Some er, s1) \<and> closed (File s1) = closed (File s)) \<and>
         (e = None \<longrightarrow>
            fst (Close s) = (if closed (File s) then Some ErrClosed else None) \<and>
            closed (File (snd (Close s))) \<and>
            data (File (snd (Close s))) = content s \<and> b_buf (buf (snd (Close s))) = [])"
  proof (cases e)
    case (Some er)
    with assms have c: "Close s = (Some er, s1)" by (simp add: Close_def)
    from flush_props(1,7)[OF assms] c Some show ?thesis by simp
  next
    case None
    with assms have fl: "flush s = (None, s1)" by simp
    note fp = flush_props[OF fl]
    from fl have c: "Close s = (case file_Close (File s1) of (e, f2) \<Rightarrow> (e, s1\<lparr>File := f2\<rparr>))"
      by (simp add: Close_def)
    show ?thesis
    proof (cases "closed (File s1)")
      case True
      with c have "Close s = (Some ErrClosed, s1)" by (simp add: file_Close_def)
      with fp True None show ?thesis by simp
    next
      case False
      with c have "Close s = (None, s1\<lparr>File := (File s1)\<lparr>closed := True\<rparr>\<rparr>)"
        by (simp add: file_Close_def)
      with fp False None show ?thesis by (simp add: content_def)
    qed
  qed
  have room: "b_err (buf s) = None \<and> \<not> closed (File s) \<and> length (content s) \<le> quota (File s)
              \<longrightarrow> e = None"
  proof
    assume "b_err (buf s) = None \<and> \<not> closed (File s) \<and> length (content s) \<le> quota (File s)"
    then have "fst (flush s) = None" using flush_fits by blast
    with assms show "e = None" by simp
  qed
  from main room show ?thesis by auto
qed

theorem Close_flushes_before_closing_witness:
  "b_err (buf hi_buffered) = None \<and> \<not> closed (File hi_buffered) \<and>
   length (content hi_buffered) \<le> quota (File hi_buffered) \<and>
   flush hi_buffered = (None, hi_flushed) \<and>
   Close hi_buffered = (None, hi_flushed\<lparr>File := (File hi_flushed)\<lparr>closed := True\<rparr>\<rparr>) \<and>
   data (File (snd (Close hi_buffered))) = [0, 0, 0, 0, 0, 0, 0, 2, 104, 105] \<and>
   closed (File (snd (Close hi_buffered))) \<and>
   flush cramped = (Some ErrNoSpace,
      cramped\<lparr>File := (File cramped)\<lparr>data := [0, 0, 0, 0]\<rparr>,
              buf := NewWriter\<lparr>b_buf := [0, 0, 0, 2, 104, 105], b_err := Some ErrNoSpace\<rparr>\<rparr>) \<and>
   fst (Close cramped) = Some ErrNoSpace \<and>
   \<not> closed (File (snd (Close cramped))) \<and>
   content (snd (Close cramped)) = [0, 0, 0, 0, 0, 0, 0, 2, 104, 105]"
proof -
  have f2: "flush cramped = (Some ErrNoSpace,
      cramped\<lparr>File := (File cramped)\<lparr>data := [0, 0, 0, 0]\<rparr>,
              buf := NewWriter\<lparr>b_buf := [0, 0, 0, 2, 104, 105], b_err := Some ErrNoSpace\<rparr>\<rparr>)"
    by (simp add: model_defs example_defs2)
  have c1: "content hi_buffered = [0, 0, 0, 0, 0, 0, 0, 2, 104, 105]"
    and c2: "content cramped = [0, 0, 0, 0, 0, 0, 0, 2, 104, 105]"
    and o1: "\<not> closed (File hi_buffered)" and o2: "\<not> closed (File cramped)"
    and e1: "b_err (buf hi_buffered) = None"
    and q1: "length (content hi_buffered) \<le> quota (File hi_buffered)"
    by (simp_all add: content_def example_defs2 NewWriter_def)
  note t1 = Close_flushes_before_closing[OF flush_hi_buffered]
  from t1 e1 o1 q1
  have "fst (Close hi_buffered) = None \<and> closed (File (snd (Close hi_buffered))) \<and>
        data (File (snd (Close hi_buffered))) = content hi_buffered"
    by blast
  with c1 have k1: "fst (Close hi_buffered) = None" "closed (File (snd (Close hi_buffered)))"
    "data (File (snd (Close hi_buffered))) = [0, 0, 0, 0, 0, 0, 0, 2, 104, 105]"
    by simp_all
  have k1': "Close hi_buffered = (None, hi_flushed\<lparr>File := (File hi_flushed)\<lparr>closed := True\<rparr>\<rparr>)"
    by (simp add: model_defs example_defs2)
  note t2 = Close_flushes_before_closing[OF f2]
  note q1' = trans[OF t2[THEN conjunct1] c2]
  from t2 have q2: "fst (Close cramped) = Some ErrNoSpace" by simp
  from t2 o2 have q3: "\<not> closed (File (snd (Close cramped)))" by simp
  from e1 o1 q1 flush_hi_buffered k1 k1' f2 q2 q3 q1' show ?thesis by blast
qed

text \<open>
  C9. The claim: \<open>Append\<close> of an empty record returns \<open>n = 8\<close> and the current position,
  and \<open>Read\<close> at that position returns an empty slice. After an eight-byte record and
  an empty one, a second empty record is returned \<open>n = 8\<close> and the position 8, which
  lies inside the first record; \<open>Read(8)\<close> decodes that record's payload as a length of
  five and returns five bytes.
\<close>

theorem empty_record_reads_back_five_bytes:
  "newStore empty_file = Inr fresh \<and>
   fst (Append_all fresh [[0, 0, 0, 0, 0, 0, 0, 5], [], []]) = Inr [(16, 0), (8, 16), (8, 8)] \<and>
   fst (Read (snd (Append_all fresh [[0, 0, 0, 0, 0, 0, 0, 5], [], []])) 8) = Ok [0, 0, 0, 0, 0]"
proof -
  have 1: "Append fresh [0, 0, 0, 0, 0, 0, 0, 5] =
     (Inr (16, 0), with_buffer [0, 0, 0, 0, 0, 0, 0, 8, 0, 0, 0, 0, 0, 0, 0, 5] 16)"
    by (simp add: model_defs example_defs)
  have 2: "Append (with_buffer [0, 0, 0, 0, 0, 0, 0, 8, 0, 0, 0, 0, 0, 0, 0, 5] 16) [] =
     (Inr (8, 16), with_buffer [0, 0, 0, 0, 0, 0, 0, 8, 0, 0, 0, 0, 0, 0, 0, 5,
                                0, 0, 0, 0, 0, 0, 0, 0] 8)"
    by (simp add: model_defs example_defs)
  have 3: "Append (with_buffer [0, 0, 0, 0, 0, 0, 0, 8, 0, 0, 0, 0, 0, 0, 0, 5,
                                0, 0, 0, 0, 0, 0, 0, 0] 8) [] =
     (Inr (8, 8), with_buffer [0, 0, 0, 0, 0, 0, 0, 8, 0, 0, 0, 0, 0, 0, 0, 5,
                               0, 0, 0, 0, 0, 0, 0, 0, 0, 0, 0, 0, 0, 0, 0, 0] 8)"
    by (simp add: model_defs example_defs)
  have 4: "fst (Read (with_buffer [0, 0, 0, 0, 0, 0, 0, 8, 0, 0, 0, 0, 0, 0, 0, 5,
                               0, 0, 0, 0, 0, 0, 0, 0, 0, 0, 0, 0, 0, 0, 0, 0] 8) 8) = Ok [0, 0, 0, 0, 0]"
    by (simp add: model_defs example_defs)
  show ?thesis by (simp add: 1 2 3 4 newStore_empty_file)
qed




end
